theory Spec2Isabelle
  imports Main
begin

chapter \<open>SuperClaude: settings manager and tool-call interceptor\<close>

text \<open>
  A shallow embedding of \<^verbatim>\<open>setup/core/settings_manager.py\<close> (deep merge, hook
  validation, backup restore) and \<^verbatim>\<open>SuperClaude/Hooks/morph_tool_interceptor.py\<close>
  (the tool-call interceptor and its process entry point). Definitions come first, the
  lemmas and theorems about them follow.
\<close>

section \<open>JSON documents\<close>

text \<open>
  The values \<^verbatim>\<open>json.load\<close> produces: \<^verbatim>\<open>None\<close>, booleans, numbers, strings, lists and
  dictionaries with string keys. The code never computes with a number, so one
  constructor with an integer payload stands for all of them. A dictionary is an
  association list in insertion order; a Python dictionary holds each key once
  (\<open>wf_json\<close>).
\<close>

datatype json =
    JNull
  | JBool bool
  | JNum int
  | JStr string
  | JArr "json list"
  | JObj "(string \<times> json) list"

type_synonym dict = "(string \<times> json) list"

fun wf_json :: "json \<Rightarrow> bool" where
  "wf_json (JArr xs) = (\<forall>x \<in> set xs. wf_json x)"
| "wf_json (JObj kvs) = (distinct (map fst kvs) \<and> (\<forall>(k, v) \<in> set kvs. wf_json v))"
| "wf_json _ = True"

text \<open>\<^verbatim>\<open>isinstance(v, dict)\<close>, \<^verbatim>\<open>isinstance(v, list)\<close>, \<^verbatim>\<open>isinstance(v, str)\<close>.\<close>

definition is_dict :: "json \<Rightarrow> bool" where
  "is_dict v = (case v of JObj _ \<Rightarrow> True | _ \<Rightarrow> False)"

definition is_list :: "json \<Rightarrow> bool" where
  "is_list v = (case v of JArr _ \<Rightarrow> True | _ \<Rightarrow> False)"

definition is_str :: "json \<Rightarrow> bool" where
  "is_str v = (case v of JStr _ \<Rightarrow> True | _ \<Rightarrow> False)"

text \<open>Python's truth value of a JSON value (\<^verbatim>\<open>if not x\<close>).\<close>

fun truthy :: "json \<Rightarrow> bool" where
  "truthy JNull = False"
| "truthy (JBool b) = b"
| "truthy (JNum n) = (n \<noteq> 0)"
| "truthy (JStr s) = (s \<noteq> [])"
| "truthy (JArr xs) = (xs \<noteq> [])"
| "truthy (JObj kvs) = (kvs \<noteq> [])"

text \<open>
  \<^verbatim>\<open>d[k] = v\<close> on a dictionary: an existing key keeps its place, a new key goes last.
  \<^verbatim>\<open>k in d\<close> and \<^verbatim>\<open>d[k]\<close> are \<open>map_of d k\<close>.
\<close>

fun dict_set :: "('k \<times> 'v) list \<Rightarrow> 'k \<Rightarrow> 'v \<Rightarrow> ('k \<times> 'v) list" where
  "dict_set [] k v = [(k, v)]"
| "dict_set ((k', v') # kvs) k v =
     (if k' = k then (k', v) # kvs else (k', v') # dict_set kvs k v)"

text \<open>
  A value reached by a key path through nested dictionaries
  (\<^verbatim>\<open>doc[k1][k2]...\<close>); \<open>None\<close> where a key is missing or a non-dictionary is indexed.
\<close>

fun get_path :: "json \<Rightarrow> string list \<Rightarrow> json option" where
  "get_path v [] = Some v"
| "get_path (JObj d) (k # ks) =
     (case map_of d k of None \<Rightarrow> None | Some v \<Rightarrow> get_path v ks)"
| "get_path _ (k # ks) = None"

text \<open>The exception classes the modelled code can meet. Every one is an \<^verbatim>\<open>Exception\<close>.\<close>

datatype py_exn =
    OSError
  | ValueError
  | JSONDecodeError
  | UnicodeDecodeError
  | TypeError
  | AttributeError
  | IndexError
  | KeyError
  | OtherException

text \<open>
  \<^verbatim>\<open>except OSError\<close> (\<^verbatim>\<open>IOError\<close> and \<^verbatim>\<open>PermissionError\<close> are \<^verbatim>\<open>OSError\<close> and a subclass of
  it) and \<^verbatim>\<open>except ValueError\<close> (\<^verbatim>\<open>JSONDecodeError\<close> and \<^verbatim>\<open>UnicodeDecodeError\<close> are
  subclasses of \<^verbatim>\<open>ValueError\<close>, and neither is a subclass of the other).
\<close>

definition is_OSError :: "py_exn \<Rightarrow> bool" where
  "is_OSError e = (e = OSError)"

definition is_ValueError :: "py_exn \<Rightarrow> bool" where
  "is_ValueError e = (e = ValueError \<or> e = JSONDecodeError \<or> e = UnicodeDecodeError)"

text \<open>Sequencing of a computation that may raise.\<close>

definition then_do :: "py_exn + 'a \<Rightarrow> ('a \<Rightarrow> py_exn + 'b) \<Rightarrow> py_exn + 'b" where
  "then_do m f = (case m of Inl e \<Rightarrow> Inl e | Inr x \<Rightarrow> f x)"

section \<open>Deep-merge engine (value level)\<close>

text \<open>
  \<^verbatim>\<open>SettingsManager._deep_merge\<close> on values. \<^verbatim>\<open>copy.deepcopy\<close> rebuilds every list and
  dictionary; on values it is the identity (\<open>deepcopy_id\<close>). Object identity, which
  the value level cannot see, is the subject of the heap-level model further down.
  \<^verbatim>\<open>
    result = copy.deepcopy(base)
    for key, value in overlay.items():
        if key in result and isinstance(result[key], dict) and isinstance(value, dict):
            result[key] = self._deep_merge(result[key], value)
        else:
            result[key] = copy.deepcopy(value)
    return result
  \<close>
\<close>

primrec deepcopy :: "json \<Rightarrow> json" where
  "deepcopy JNull = JNull"
| "deepcopy (JBool b) = JBool b"
| "deepcopy (JNum n) = JNum n"
| "deepcopy (JStr s) = JStr s"
| "deepcopy (JArr xs) = JArr (map deepcopy xs)"
| "deepcopy (JObj kvs) = JObj (map (map_prod id deepcopy) kvs)"

fun deep_merge :: "dict \<Rightarrow> dict \<Rightarrow> dict"
  and merge_items :: "dict \<Rightarrow> dict \<Rightarrow> dict" where
  "deep_merge base overlay = merge_items (map (map_prod id deepcopy) base) overlay"
| "merge_items result [] = result"
| "merge_items result ((key, v) # rest) =
     merge_items
       (case (map_of result key, v) of
          (Some (JObj b), JObj ov) \<Rightarrow> dict_set result key (JObj (deep_merge b ov))
        | _ \<Rightarrow> dict_set result key (deepcopy v))
       rest"

text \<open>The value one loop iteration stores at \<open>key\<close>, given what \<open>result\<close> holds there.\<close>

fun merge_value :: "json option \<Rightarrow> json \<Rightarrow> json" where
  "merge_value (Some (JObj b)) (JObj ov) = JObj (deep_merge b ov)"
| "merge_value _ v = v"

section \<open>Hook configuration validator\<close>

text \<open>
  \<^verbatim>\<open>SettingsManager._validate_hooks_config\<close>: two nested loops, each check returning
  \<^verbatim>\<open>False\<close> at once.
\<close>

definition valid_hook_types :: "string list" where
  "valid_hook_types =
     [''preToolUse'', ''postToolUse'', ''errorHandler'', ''notification'', ''stop'',
      ''subagentStop'']"

text \<open>The body of the inner loop: \<open>True\<close> when the loop goes on to the next hook.\<close>

definition validate_hook :: "json \<Rightarrow> bool" where
  "validate_hook hook =
     (case hook of
        JObj d \<Rightarrow>
          (if map_of d ''matcher'' = None \<or> map_of d ''command'' = None then False
           else if \<not> is_str (the (map_of d ''matcher'')) \<or> \<not> is_str (the (map_of d ''command''))
           then False
           else True)
      | _ \<Rightarrow> False)"

fun validate_hook_list :: "json list \<Rightarrow> bool" where
  "validate_hook_list [] = True"
| "validate_hook_list (hook # hooks) =
     (if validate_hook hook then validate_hook_list hooks else False)"

fun validate_hooks_config :: "dict \<Rightarrow> bool" where
  "validate_hooks_config [] = True"
| "validate_hooks_config ((hook_type, hook_list) # rest) =
     (if hook_type \<notin> set valid_hook_types then False
      else case hook_list of
             JArr hooks \<Rightarrow>
               (if validate_hook_list hooks then validate_hooks_config rest else False)
           | _ \<Rightarrow> False)"

text \<open>
  The validator's contract as the specification words it: every key is an allowed hook
  type, every value is a sequence, and every element is a mapping that holds
  string-typed \<open>matcher\<close> and \<open>command\<close> entries.
\<close>

definition hook_entry_ok :: "json \<Rightarrow> bool" where
  "hook_entry_ok h =
     (\<exists>d m c. h = JObj d \<and> map_of d ''matcher'' = Some (JStr m)
        \<and> map_of d ''command'' = Some (JStr c))"

definition hooks_config_ok :: "dict \<Rightarrow> bool" where
  "hooks_config_ok cfg =
     (\<forall>(hook_type, hook_list) \<in> set cfg.
        hook_type \<in> {''preToolUse'', ''postToolUse'', ''errorHandler'', ''notification'',
                      ''stop'', ''subagentStop''}
        \<and> (\<exists>hooks. hook_list = JArr hooks \<and> (\<forall>h \<in> set hooks. hook_entry_ok h)))"

section \<open>Python operations on JSON-derived values\<close>

text \<open>
  The interceptor applies dictionary operations to whatever \<^verbatim>\<open>json.loads\<close> returned.
  Each operation raises on the types CPython raises on.
\<close>

text \<open>\<^verbatim>\<open>x.get(k, default)\<close>: only a dictionary has \<^verbatim>\<open>get\<close>.\<close>

definition py_get :: "json \<Rightarrow> string \<Rightarrow> json \<Rightarrow> py_exn + json" where
  "py_get x k dflt =
     (case x of
        JObj d \<Rightarrow> Inr (case map_of d k of None \<Rightarrow> dflt | Some v \<Rightarrow> v)
      | _ \<Rightarrow> Inl AttributeError)"

text \<open>\<^verbatim>\<open>x[k]\<close> with a string \<open>k\<close>.\<close>

definition py_getitem :: "json \<Rightarrow> string \<Rightarrow> py_exn + json" where
  "py_getitem x k =
     (case x of
        JObj d \<Rightarrow> (case map_of d k of None \<Rightarrow> Inl KeyError | Some v \<Rightarrow> Inr v)
      | _ \<Rightarrow> Inl TypeError)"

text \<open>\<^verbatim>\<open>needle in haystack\<close> on strings.\<close>

fun is_substring :: "string \<Rightarrow> string \<Rightarrow> bool" where
  "is_substring needle [] = (needle = [])"
| "is_substring needle (c # cs) =
     (take (length needle) (c # cs) = needle \<or> is_substring needle cs)"

text \<open>
  \<^verbatim>\<open>k in x\<close> with a string \<open>k\<close>: a key of a dictionary, an element of a list, a
  substring of a string; the other types are not iterable.
\<close>

definition py_contains :: "json \<Rightarrow> string \<Rightarrow> py_exn + bool" where
  "py_contains x k =
     (case x of
        JObj d \<Rightarrow> Inr (map_of d k \<noteq> None)
      | JArr xs \<Rightarrow> Inr (JStr k \<in> set xs)
      | JStr s \<Rightarrow> Inr (is_substring k s)
      | _ \<Rightarrow> Inl TypeError)"

text \<open>\<^verbatim>\<open>len(x)\<close>.\<close>

definition py_len :: "json \<Rightarrow> py_exn + nat" where
  "py_len x =
     (case x of
        JArr xs \<Rightarrow> Inr (length xs)
      | JObj d \<Rightarrow> Inr (length d)
      | JStr s \<Rightarrow> Inr (length s)
      | _ \<Rightarrow> Inl TypeError)"

text \<open>
  \<^verbatim>\<open>x in D\<close> for a module-level dictionary \<open>D\<close> with string keys: \<open>x\<close> is hashed
  first, and lists and dictionaries are unhashable.
\<close>

definition in_dict_keys :: "json \<Rightarrow> string list \<Rightarrow> py_exn + bool" where
  "in_dict_keys x ks =
     (case x of
        JArr _ \<Rightarrow> Inl TypeError
      | JObj _ \<Rightarrow> Inl TypeError
      | JStr s \<Rightarrow> Inr (s \<in> set ks)
      | _ \<Rightarrow> Inr False)"

section \<open>The interceptor's environment\<close>

text \<open>
  What the interceptor reads from outside: environment variables, \<^verbatim>\<open>sys.argv\<close>, the
  JSON parser, the file system and the outcome of \<^verbatim>\<open>claude mcp list\<close>.
  \<^item> \<open>json_loads\<close> is \<^verbatim>\<open>json.loads\<close>; \<open>None\<close> when it raises.
  \<^item> \<open>stat_path p\<close> is \<^verbatim>\<open>os.stat(p)\<close> for a string \<open>p\<close>: whether the entry is a
    directory, and its size; \<open>None\<close> when \<^verbatim>\<open>os.stat\<close> raises (\<^verbatim>\<open>OSError\<close> or
    \<^verbatim>\<open>ValueError\<close>). \<open>listdir_path p\<close> is \<^verbatim>\<open>os.listdir(p)\<close>; \<open>None\<close> when it raises
    \<^verbatim>\<open>OSError\<close>.
  \<^item> \<open>stat_other\<close> and \<open>listdir_other\<close> are the same calls on an argument that is not
    a string (CPython reads an integer as a file descriptor and rejects most other
    types); the model assumes nothing about them.
  \<^item> \<open>claude_mcp_list\<close> is the \<^verbatim>\<open>subprocess.run\<close> of \<^verbatim>\<open>claude mcp list\<close>: the return
    code and the lower-cased standard output; \<open>None\<close> when it raises.
  The interception log is assumed appendable; timestamps and the process id are left
  out.
\<close>

datatype stat_result = Stat bool nat

record environment =
  getenv :: "string \<Rightarrow> string option"
  argv :: "string list"
  json_loads :: "string \<Rightarrow> json option"
  stat_path :: "string \<Rightarrow> stat_result option"
  listdir_path :: "string \<Rightarrow> string list option"
  stat_other :: "json \<Rightarrow> py_exn + stat_result"
  listdir_other :: "json \<Rightarrow> py_exn + string list"
  claude_mcp_list :: "(int \<times> string) option"

definition os_stat :: "environment \<Rightarrow> json \<Rightarrow> py_exn + stat_result" where
  "os_stat env x =
     (case x of
        JStr p \<Rightarrow> (case stat_path env p of None \<Rightarrow> Inl OSError | Some st \<Rightarrow> Inr st)
      | _ \<Rightarrow> stat_other env x)"

text \<open>
  \<^verbatim>\<open>os.path.exists\<close> and \<^verbatim>\<open>os.path.isdir\<close> call \<^verbatim>\<open>os.stat\<close> and answer \<^verbatim>\<open>False\<close> on
  \<^verbatim>\<open>OSError\<close> and \<^verbatim>\<open>ValueError\<close>; any other exception passes through.
\<close>

definition os_path_exists :: "environment \<Rightarrow> json \<Rightarrow> py_exn + bool" where
  "os_path_exists env x =
     (case os_stat env x of
        Inl e \<Rightarrow> if is_OSError e \<or> is_ValueError e then Inr False else Inl e
      | Inr st \<Rightarrow> Inr True)"

definition os_path_isdir :: "environment \<Rightarrow> json \<Rightarrow> py_exn + bool" where
  "os_path_isdir env x =
     (case os_stat env x of
        Inl e \<Rightarrow> if is_OSError e \<or> is_ValueError e then Inr False else Inl e
      | Inr (Stat isdir sz) \<Rightarrow> Inr isdir)"

definition os_path_getsize :: "environment \<Rightarrow> json \<Rightarrow> py_exn + nat" where
  "os_path_getsize env x =
     (case os_stat env x of Inl e \<Rightarrow> Inl e | Inr (Stat isdir sz) \<Rightarrow> Inr sz)"

definition os_listdir :: "environment \<Rightarrow> json \<Rightarrow> py_exn + string list" where
  "os_listdir env x =
     (case x of
        JStr p \<Rightarrow> (case listdir_path env p of None \<Rightarrow> Inl OSError | Some items \<Rightarrow> Inr items)
      | _ \<Rightarrow> listdir_other env x)"

text \<open>\<^verbatim>\<open>os.path.join(a, b)\<close> (POSIX) with a string \<open>b\<close>; \<open>a\<close> must be a string.\<close>

definition os_path_join :: "json \<Rightarrow> string \<Rightarrow> py_exn + string" where
  "os_path_join a b =
     (case a of
        JStr p \<Rightarrow>
          Inr (if take 1 b = ''/'' then b
               else if p = [] \<or> last p = CHR ''/'' then p @ b
               else p @ ''/'' @ b)
      | _ \<Rightarrow> Inl TypeError)"

text \<open>\<^verbatim>\<open>os.getenv(name)\<close> used as a condition: set and not empty.\<close>

definition env_truthy :: "environment \<Rightarrow> string \<Rightarrow> bool" where
  "env_truthy env name = (case getenv env name of None \<Rightarrow> False | Some v \<Rightarrow> v \<noteq> [])"

section \<open>Tool-call interceptor\<close>

definition TOOL_MAPPING :: "(string \<times> string) list" where
  "TOOL_MAPPING =
     [(''Read'', ''mcp__filesystem-with-morph__read_file''),
      (''Write'', ''mcp__filesystem-with-morph__write_file''),
      (''Edit'', ''mcp__filesystem-with-morph__edit_file''),
      (''LS'', ''mcp__filesystem-with-morph__list_directory''),
      (''Glob'', ''mcp__filesystem-with-morph__search_files''),
      (''MultiEdit'', ''mcp__filesystem-with-morph__edit_file'')]"

definition MORPH_TOOLS_WITH_FALLBACK :: "(string \<times> string) list" where
  "MORPH_TOOLS_WITH_FALLBACK =
     [(''mcp__filesystem-with-morph__directory_tree'', ''safe_directory_tree'')]"

text \<open>\<^verbatim>\<open>AUTO_ACTIVATION_THRESHOLDS\<close>, one constant per entry the code reads.\<close>

definition filesystem_operations_threshold :: nat where
  "filesystem_operations_threshold = 5"

definition batch_edits_threshold :: nat where
  "batch_edits_threshold = 3"

text \<open>
  \<^verbatim>\<open>self.session_stats\<close> (without \<^verbatim>\<open>start_time\<close>) and the lines this instance has
  appended to the interception log: tool name, action and the counters at that moment.
\<close>

record interceptor =
  total_operations :: nat
  morph_operations :: nat
  native_operations :: nat
  fallback_operations :: nat
  log_lines :: "(json \<times> string \<times> nat \<times> nat \<times> nat \<times> nat) list"

text \<open>\<^verbatim>\<open>MorphToolInterceptor.__init__\<close>.\<close>

definition new_interceptor :: interceptor where
  "new_interceptor =
     \<lparr>total_operations = 0, morph_operations = 0, native_operations = 0,
      fallback_operations = 0, log_lines = []\<rparr>"

text \<open>\<^verbatim>\<open>parse_flags\<close>: flags from environment variables, then from \<^verbatim>\<open>sys.argv[1:]\<close>.\<close>

definition morph_flags :: "string list" where
  "morph_flags = [''--morph'', ''--morphllm'', ''--morph-only'', ''--morph-fast'', ''--no-morph'']"

definition parse_flags :: "environment \<Rightarrow> string list" where
  "parse_flags env =
     (if env_truthy env ''MORPH_ENABLED'' then [''--morph''] else [])
     @ (if env_truthy env ''MORPH_ONLY'' then [''--morph-only''] else [])
     @ (if env_truthy env ''MORPH_FAST'' then [''--morph-fast''] else [])
     @ (if env_truthy env ''NO_MORPH'' then [''--no-morph''] else [])
     @ filter (\<lambda>arg. arg \<in> set morph_flags) (drop 1 (argv env))"

text \<open>\<^verbatim>\<open>is_batch_operation\<close>.\<close>

definition is_batch_operation :: "json \<Rightarrow> py_exn + bool" where
  "is_batch_operation tool_input =
     then_do (py_contains tool_input ''edits'') (\<lambda>has_edits.
       if has_edits then
         then_do (py_get tool_input ''edits'' (JArr [])) (\<lambda>edits.
         then_do (py_len edits) (\<lambda>n. Inr (batch_edits_threshold \<le> n)))
       else Inr False)"

text \<open>\<^verbatim>\<open>is_large_directory_operation\<close>.\<close>

definition is_large_directory_operation :: "json \<Rightarrow> bool" where
  "is_large_directory_operation tool_input = True"

text \<open>
  \<^verbatim>\<open>is_performance_critical_operation\<close>. The \<^verbatim>\<open>try\<close> block returns \<^verbatim>\<open>True\<close> for a large
  file; \<^verbatim>\<open>OSError\<close> and \<^verbatim>\<open>KeyError\<close> are swallowed.
\<close>

definition large_file_check :: "environment \<Rightarrow> json \<Rightarrow> py_exn + bool" where
  "large_file_check env tool_input =
     (case
        then_do (py_getitem tool_input ''file_path'') (\<lambda>file_path.
        then_do (os_path_exists env file_path) (\<lambda>ex.
          if ex then
            then_do (os_path_getsize env file_path) (\<lambda>file_size.
              Inr (1024 * 1024 < file_size))
          else Inr False))
      of
        Inl e \<Rightarrow> if is_OSError e \<or> e = KeyError then Inr False else Inl e
      | Inr b \<Rightarrow> Inr b)"

definition is_performance_critical_operation ::
    "environment \<Rightarrow> json \<Rightarrow> json \<Rightarrow> py_exn + bool" where
  "is_performance_critical_operation env tool_name tool_input =
     then_do
       (if tool_name \<in> {JStr ''Read'', JStr ''Write'', JStr ''Edit''} then
          then_do (py_contains tool_input ''file_path'') (\<lambda>has_path.
            if has_path then large_file_check env tool_input else Inr False)
        else Inr False)
       (\<lambda>large.
          if large then Inr True
          else if tool_name = JStr ''MultiEdit'' then
            then_do (py_get tool_input ''edits'' (JArr [])) (\<lambda>edits.
            then_do (py_len edits) (\<lambda>n. Inr (1 < n)))
          else Inr False)"

text \<open>
  \<^verbatim>\<open>should_auto_activate\<close>. The Python returns a boolean; the model returns which of its
  four \<^verbatim>\<open>return True\<close> statements was reached (\<open>None\<close> for \<^verbatim>\<open>return False\<close>).
\<close>

datatype activation =
    OperationsThreshold
  | BatchEdit
  | LargeDirectory
  | PerformanceCritical

definition should_auto_activate ::
    "environment \<Rightarrow> interceptor \<Rightarrow> json \<Rightarrow> json \<Rightarrow> string list \<Rightarrow> py_exn + activation option" where
  "should_auto_activate env self tool_name tool_input flags =
     then_do (in_dict_keys tool_name (map fst TOOL_MAPPING)) (\<lambda>known.
       if \<not> known then Inr None
       else if filesystem_operations_threshold \<le> total_operations self then
         Inr (Some OperationsThreshold)
       else
         then_do (if tool_name = JStr ''MultiEdit'' then is_batch_operation tool_input
                  else Inr False) (\<lambda>batch.
           if batch then Inr (Some BatchEdit)
           else if tool_name = JStr ''LS'' \<and> is_large_directory_operation tool_input then
             Inr (Some LargeDirectory)
           else
             then_do (if ''--morph-fast'' \<in> set flags
                      then is_performance_critical_operation env tool_name tool_input
                      else Inr False) (\<lambda>fast.
               if fast then Inr (Some PerformanceCritical) else Inr None)))"

text \<open>\<^verbatim>\<open>should_intercept\<close>: the explicit flags first, then auto-activation.\<close>

definition should_intercept ::
    "environment \<Rightarrow> interceptor \<Rightarrow> json \<Rightarrow> json \<Rightarrow> string list \<Rightarrow> py_exn + bool" where
  "should_intercept env self tool_name tool_input flags =
     (if ''--no-morph'' \<in> set flags then Inr False
      else if ''--morph-only'' \<in> set flags then in_dict_keys tool_name (map fst TOOL_MAPPING)
      else if ''--morph'' \<in> set flags \<or> ''--morphllm'' \<in> set flags then
        in_dict_keys tool_name (map fst TOOL_MAPPING)
      else
        then_do (should_auto_activate env self tool_name tool_input flags) (\<lambda>a.
          Inr (a \<noteq> None)))"

text \<open>\<^verbatim>\<open>validate_morph_server\<close>; it catches every exception of the subprocess call.\<close>

definition validate_morph_server :: "environment \<Rightarrow> bool" where
  "validate_morph_server env =
     (if \<not> env_truthy env ''MORPH_API_KEY'' then False
      else case claude_mcp_list env of
             None \<Rightarrow> False
           | Some (returncode, stdout_lower) \<Rightarrow>
               returncode = 0 \<and> is_substring ''filesystem-with-morph'' stdout_lower)"

text \<open>\<^verbatim>\<open>map_multiedit_parameters\<close> and \<^verbatim>\<open>map_tool_parameters\<close>.\<close>

definition map_multiedit_parameters :: "json \<Rightarrow> py_exn + json" where
  "map_multiedit_parameters tool_input =
     then_do (py_get tool_input ''file_path'' (JStr [])) (\<lambda>file_path.
     then_do (py_get tool_input ''edits'' (JArr [])) (\<lambda>edits.
       Inr (JObj [(''file_path'', file_path), (''edits'', edits),
                  (''batch_mode'', JBool True), (''atomic_operation'', JBool True)])))"

definition map_tool_parameters :: "json \<Rightarrow> json \<Rightarrow> py_exn + json" where
  "map_tool_parameters tool_name tool_input =
     (if tool_name \<in> {JStr ''Read'', JStr ''Write'', JStr ''Edit'', JStr ''LS'', JStr ''Glob''}
      then Inr tool_input
      else if tool_name = JStr ''MultiEdit'' then map_multiedit_parameters tool_input
      else Inr tool_input)"

text \<open>\<^verbatim>\<open>TOOL_MAPPING.get(tool_name, tool_name)\<close>.\<close>

definition tool_mapping_get :: "json \<Rightarrow> py_exn + json" where
  "tool_mapping_get tool_name =
     (case tool_name of
        JArr _ \<Rightarrow> Inl TypeError
      | JObj _ \<Rightarrow> Inl TypeError
      | JStr s \<Rightarrow> Inr (case map_of TOOL_MAPPING s of None \<Rightarrow> tool_name | Some m \<Rightarrow> JStr m)
      | _ \<Rightarrow> Inr tool_name)"

text \<open>\<^verbatim>\<open>create_morph_tool_call\<close> (without \<^verbatim>\<open>timestamp\<close> and \<^verbatim>\<open>session_id\<close>).\<close>

definition create_morph_tool_call :: "json \<Rightarrow> json \<Rightarrow> py_exn + json" where
  "create_morph_tool_call tool_name tool_input =
     then_do (tool_mapping_get tool_name) (\<lambda>morph_tool_name.
     then_do (map_tool_parameters tool_name tool_input) (\<lambda>mapped_input.
       Inr (JObj [(''tool'', morph_tool_name), (''input'', mapped_input),
                  (''original_tool'', tool_name)])))"

text \<open>\<^verbatim>\<open>log_interception\<close>: one line appended, with the counters at that moment.\<close>

definition log_interception :: "interceptor \<Rightarrow> json \<Rightarrow> string \<Rightarrow> interceptor" where
  "log_interception self tool_name action =
     self\<lparr>log_lines := log_lines self @
        [(tool_name, action, total_operations self, morph_operations self,
          native_operations self, fallback_operations self)]\<rparr>"

text \<open>
  \<^verbatim>\<open>create_fallback_response\<close>. Here and below the free-text \<^verbatim>\<open>reason\<close> entry of a
  response is left out.
\<close>

definition create_fallback_response :: "json \<Rightarrow> json \<Rightarrow> json" where
  "create_fallback_response tool_name tool_input =
     JObj [(''action'', JStr ''allow''), (''fallback_mode'', JBool True),
           (''performance_note'',
            JStr ''Performance may be reduced due to MorphLLM unavailability'')]"

text \<open>\<^verbatim>\<open>detect_token_overflow_risk\<close>.\<close>

definition problematic_subdirs :: "string list" where
  "problematic_subdirs =
     [''.git'', ''node_modules'', ''logs'', ''__pycache__'', ''.cache'', ''build'', ''dist'',
      ''.venv'', ''venv'']"

text \<open>\<^verbatim>\<open>sum(1 for item in items if os.path.isdir(os.path.join(path, item)))\<close>.\<close>

fun count_subdirs :: "environment \<Rightarrow> json \<Rightarrow> string list \<Rightarrow> py_exn + nat" where
  "count_subdirs env path [] = Inr 0"
| "count_subdirs env path (item # items) =
     (case os_path_join path item of
        Inl e \<Rightarrow> Inl e
      | Inr child \<Rightarrow>
          (case os_path_isdir env (JStr child) of
             Inl e \<Rightarrow> Inl e
           | Inr d \<Rightarrow>
               (case count_subdirs env path items of
                  Inl e \<Rightarrow> Inl e
                | Inr n \<Rightarrow> Inr (if d then n + 1 else n))))"

definition detect_token_overflow_risk :: "environment \<Rightarrow> json \<Rightarrow> json \<Rightarrow> py_exn + bool" where
  "detect_token_overflow_risk env tool_name tool_input =
     (if tool_name = JStr ''mcp__filesystem-with-morph__directory_tree'' then
        then_do (py_get tool_input ''path'' (JStr [])) (\<lambda>path.
          case
            then_do (os_path_exists env path) (\<lambda>ex.
            then_do (if ex then os_path_isdir env path else Inr False) (\<lambda>isdir.
              if isdir then
                then_do (os_listdir env path) (\<lambda>items.
                then_do (count_subdirs env path items) (\<lambda>subdirs.
                  let has_problematic =
                        list_ex (\<lambda>subdir. subdir \<in> set items) problematic_subdirs
                  in if 8 \<le> subdirs then Inr True
                     else if has_problematic then Inr True
                     else if 15 \<le> length items then Inr True
                     else Inr False))
              else Inr False))
          of
            Inl e \<Rightarrow> if is_OSError e then Inr True else Inl e
          | Inr b \<Rightarrow> Inr b)
      else Inr False)"

text \<open>\<^verbatim>\<open>create_chunked_directory_sequence\<close>.\<close>

definition create_chunked_directory_sequence :: "json \<Rightarrow> py_exn + json" where
  "create_chunked_directory_sequence tool_input =
     then_do (py_get tool_input ''path'' (JStr [])) (\<lambda>path.
       Inr (JObj
         [(''tool'', JStr ''mcp__filesystem-with-morph__list_directory''),
          (''input'', JObj [(''path'', path)]),
          (''chunked_strategy'', JObj
             [(''step'', JNum 1),
              (''description'', JStr ''Getting root directory listing safely''),
              (''next_steps'', JArr
                 [JStr ''For each subdirectory, try mcp__filesystem-with-morph__directory_tree individually'',
                  JStr ''If any subdirectory fails, keep it as a basic directory entry'',
                  JStr ''Exclude known problematic directories (.git, node_modules, logs)'']),
              (''fallback_note'',
               JStr ''This approach prevents token overflow by processing directories in chunks'')])]))"

text \<open>\<^verbatim>\<open>should_use_safe_directory_tree\<close>.\<close>

definition should_use_safe_directory_tree :: "environment \<Rightarrow> json \<Rightarrow> json \<Rightarrow> py_exn + bool" where
  "should_use_safe_directory_tree env tool_name tool_input =
     then_do (in_dict_keys tool_name (map fst MORPH_TOOLS_WITH_FALLBACK)) (\<lambda>listed.
       if \<not> listed then Inr False
       else if tool_name = JStr ''mcp__filesystem-with-morph__directory_tree'' then
         detect_token_overflow_risk env tool_name tool_input
       else Inr False)"

text \<open>
  \<^verbatim>\<open>process_tool_call\<close>. The first statement counts the operation; \<open>route_tool_call\<close> is
  the rest of the body. The result pairs the instance after the call with the returned
  dictionary or the exception that left the call.
\<close>

definition count_operation :: "interceptor \<Rightarrow> interceptor" where
  "count_operation self = self\<lparr>total_operations := total_operations self + 1\<rparr>"

definition safe_block_response :: "json \<Rightarrow> json \<Rightarrow> py_exn + json" where
  "safe_block_response tool_name chunked_call =
     then_do (py_getitem chunked_call ''tool'') (\<lambda>alt_tool.
     then_do (py_getitem chunked_call ''input'') (\<lambda>alt_input.
     then_do (py_get chunked_call ''chunked_strategy'' (JObj [])) (\<lambda>strategy.
       Inr (JObj
         [(''action'', JStr ''block''),
          (''exit_code'', JNum 2),
          (''alternative_tool'', alt_tool),
          (''alternative_input'', alt_input),
          (''morph_metadata'', JObj
             [(''original_tool'', tool_name),
              (''safety_mode'', JBool True),
              (''token_overflow_prevention'', JBool True),
              (''chunked_strategy'', strategy),
              (''recommended_approach'',
               JStr ''Use list_directory + selective directory_tree calls'')])]))))"

definition morph_block_response :: "json \<Rightarrow> json \<Rightarrow> py_exn + json" where
  "morph_block_response tool_name morph_call =
     then_do (py_getitem morph_call ''tool'') (\<lambda>alt_tool.
     then_do (py_getitem morph_call ''input'') (\<lambda>alt_input.
       Inr (JObj
         [(''action'', JStr ''block''),
          (''exit_code'', JNum 2),
          (''alternative_tool'', alt_tool),
          (''alternative_input'', alt_input),
          (''morph_metadata'', JObj
             [(''original_tool'', tool_name),
              (''performance_expected'', JBool True),
              (''fallback_available'', JBool True)])])))"

definition route_tool_call ::
    "environment \<Rightarrow> interceptor \<Rightarrow> string list \<Rightarrow> json \<Rightarrow> json \<Rightarrow> interceptor \<times> (py_exn + json)" where
  "route_tool_call env self flags tool_name tool_input =
     (case should_use_safe_directory_tree env tool_name tool_input of
        Inl e \<Rightarrow> (self, Inl e)
      | Inr True \<Rightarrow>
          (case py_get tool_input ''path'' (JStr []) of
             Inl e \<Rightarrow> (self, Inl e)
           | Inr path \<Rightarrow>
               let logged = log_interception self tool_name ''safe_intercept'';
                   counted = logged\<lparr>morph_operations := morph_operations logged + 1\<rparr>
               in (counted,
                   then_do (create_chunked_directory_sequence tool_input)
                     (safe_block_response tool_name)))
      | Inr False \<Rightarrow>
          (case should_intercept env self tool_name tool_input flags of
             Inl e \<Rightarrow> (self, Inl e)
           | Inr True \<Rightarrow>
               if \<not> validate_morph_server env then
                 let logged = log_interception self tool_name ''fallback'';
                     counted = logged\<lparr>fallback_operations := fallback_operations logged + 1\<rparr>
                 in (counted, Inr (create_fallback_response tool_name tool_input))
               else
                 (case create_morph_tool_call tool_name tool_input of
                    Inl e \<Rightarrow> (self, Inl e)
                  | Inr morph_call \<Rightarrow>
                      let logged = log_interception self tool_name ''intercept'';
                          counted = logged\<lparr>morph_operations := morph_operations logged + 1\<rparr>
                      in (counted, morph_block_response tool_name morph_call))
           | Inr False \<Rightarrow>
               let counted = self\<lparr>native_operations := native_operations self + 1\<rparr>;
                   logged = log_interception counted tool_name ''allow''
               in (logged, Inr (JObj [(''action'', JStr ''allow'')]))))"

definition process_tool_call ::
    "environment \<Rightarrow> interceptor \<Rightarrow> json \<Rightarrow> json \<Rightarrow> interceptor \<times> (py_exn + json)" where
  "process_tool_call env self tool_name tool_input =
     route_tool_call env (count_operation self) (parse_flags env) tool_name tool_input"

text \<open>
  A sequence of calls on one instance, each in the environment of its moment; an
  exception leaves the instance as the call left it.
\<close>

fun process_tool_calls ::
    "interceptor \<Rightarrow> (environment \<times> json \<times> json) list \<Rightarrow> interceptor \<times> (py_exn + json) list" where
  "process_tool_calls self [] = (self, [])"
| "process_tool_calls self ((env, tool_name, tool_input) # calls) =
     (case process_tool_call env self tool_name tool_input of
        (self', outcome) \<Rightarrow>
          (case process_tool_calls self' calls of
             (final, outcomes) \<Rightarrow> (final, outcome # outcomes)))"

section \<open>The interceptor's process entry point\<close>






section \<open>Example environments and inputs\<close>

text \<open>
  A project directory \<^verbatim>\<open>/proj\<close> that holds \<^verbatim>\<open>node_modules\<close>; \<^verbatim>\<open>NO_MORPH\<close> is set and
  \<^verbatim>\<open>--no-morph\<close> is also passed on the command line.
\<close>

definition env_no_morph :: environment where
  "env_no_morph =
     \<lparr>getenv = (\<lambda>name. if name = ''NO_MORPH'' then Some ''1'' else None),
      argv = [''morph_tool_interceptor.py'', ''{}'', ''--no-morph''],
      json_loads = (\<lambda>s. if s = ''{}'' then Some (JObj []) else None),
      stat_path = (\<lambda>p. if p = ''/proj'' \<or> p = ''/proj/node_modules'' then Some (Stat True 4096)
                         else if p = ''/proj/package.json'' then Some (Stat False 120)
                         else None),
      listdir_path = (\<lambda>p. if p = ''/proj'' then Some [''node_modules'', ''package.json'']
                            else None),
      stat_other = (\<lambda>x. Inl TypeError),
      listdir_other = (\<lambda>x. Inl TypeError),
      claude_mcp_list = None\<rparr>"

text \<open>No flag anywhere; the backend is not configured (\<^verbatim>\<open>MORPH_API_KEY\<close> is unset).\<close>

definition env_plain :: environment where
  "env_plain =
     \<lparr>getenv = (\<lambda>name. None),
      argv = [''morph_tool_interceptor.py'', ''{}''],
      json_loads = (\<lambda>s. if s = ''{}'' then Some (JObj []) else None),
      stat_path = (\<lambda>p. None),
      listdir_path = (\<lambda>p. None),
      stat_other = (\<lambda>x. Inl TypeError),
      listdir_other = (\<lambda>x. Inl TypeError),
      claude_mcp_list = None\<rparr>"

text \<open>No flag anywhere; the backend is configured and listed.\<close>

definition env_backend :: environment where
  "env_backend =
     \<lparr>getenv = (\<lambda>name. if name = ''MORPH_API_KEY'' then Some ''sk-test'' else None),
      argv = [''morph_tool_interceptor.py'', ''{}''],
      json_loads = (\<lambda>s. if s = ''{}'' then Some (JObj []) else None),
      stat_path = (\<lambda>p. None),
      listdir_path = (\<lambda>p. None),
      stat_other = (\<lambda>x. Inl TypeError),
      listdir_other = (\<lambda>x. Inl TypeError),
      claude_mcp_list = Some (0, ''filesystem-with-morph: connected'')\<rparr>"

text \<open>A \<^verbatim>\<open>MultiEdit\<close> input with four edits.\<close>

definition four_edits :: json where
  "four_edits =
     JObj [(''file_path'', JStr ''/proj/a.py''),
           (''edits'', JArr [JObj [(''old_string'', JStr ''a''), (''new_string'', JStr ''b'')],
                             JObj [(''old_string'', JStr ''c''), (''new_string'', JStr ''d'')],
                             JObj [(''old_string'', JStr ''e''), (''new_string'', JStr ''f'')],
                             JObj [(''old_string'', JStr ''g''), (''new_string'', JStr ''h'')]])]"

text \<open>
  The action and the entries of a printed response; \<open>counted_once\<close>: one call moved
  \<open>total_operations\<close> and exactly one of the other three counters by one.
\<close>

definition action_of :: "json \<Rightarrow> json option" where
  "action_of response = (case response of JObj d \<Rightarrow> map_of d ''action'' | _ \<Rightarrow> None)"

definition entry_of :: "json \<Rightarrow> string \<Rightarrow> json option" where
  "entry_of response k = (case response of JObj d \<Rightarrow> map_of d k | _ \<Rightarrow> None)"

definition counted_once :: "interceptor \<Rightarrow> interceptor \<Rightarrow> bool" where
  "counted_once self self' =
     (total_operations self' = total_operations self + 1
      \<and> ((native_operations self' = native_operations self + 1
           \<and> morph_operations self' = morph_operations self
           \<and> fallback_operations self' = fallback_operations self)
         \<or> (native_operations self' = native_operations self
           \<and> morph_operations self' = morph_operations self + 1
           \<and> fallback_operations self' = fallback_operations self)
         \<or> (native_operations self' = native_operations self
           \<and> morph_operations self' = morph_operations self
           \<and> fallback_operations self' = fallback_operations self + 1)))"

definition counters_sum :: "interceptor \<Rightarrow> nat" where
  "counters_sum self =
     native_operations self + morph_operations self + fallback_operations self"

text \<open>
  The two shapes a returned response has: an \<^verbatim>\<open>allow\<close> without \<^verbatim>\<open>exit_code\<close>, and a
  \<^verbatim>\<open>block\<close> whose \<^verbatim>\<open>exit_code\<close> is 2.
\<close>

definition allow_shape :: "json \<Rightarrow> bool" where
  "allow_shape response =
     (action_of response = Some (JStr ''allow'') \<and> entry_of response ''exit_code'' = None)"

definition block_shape :: "json \<Rightarrow> bool" where
  "block_shape response =
     (action_of response = Some (JStr ''block'') \<and> entry_of response ''exit_code'' = Some (JNum 2))"


section \<open>Hook path validation\<close>

text \<open>
  \<^verbatim>\<open>SettingsManager.validate_hooks_paths\<close>. In this section a character of a string is a
  Unicode code point below 256.

  The file system is a function \<open>probe\<close> from a path to the outcome of \<^verbatim>\<open>os.stat\<close> as
  \<^verbatim>\<open>Path.exists\<close> and \<^verbatim>\<open>Path.is_file\<close> see it: \<open>Inr None\<close> when there is no such entry
  (\<^verbatim>\<open>os.stat\<close> fails with \<^verbatim>\<open>ENOENT\<close>, \<^verbatim>\<open>ENOTDIR\<close>, \<^verbatim>\<open>EBADF\<close> or \<^verbatim>\<open>ELOOP\<close>, or with
  \<^verbatim>\<open>ValueError\<close>; both methods then answer \<^verbatim>\<open>False\<close>), \<open>Inr (Some k)\<close> for an entry of kind
  \<open>k\<close>, and \<open>Inl e\<close> when \<^verbatim>\<open>os.stat\<close> fails with any other error (\<^verbatim>\<open>EACCES\<close>,
  \<^verbatim>\<open>ENAMETOOLONG\<close>, ...), which both methods raise again. Each error message is a
  constructor that carries what the message interpolates.
\<close>

datatype path_kind = RegularFile | OtherEntry

datatype hook_error =
    ShouldBeList string
  | ShouldBeDict string nat
  | MissingCommand string nat
  | ScriptNotFound string
  | NotAFile string

text \<open>
  \<^verbatim>\<open>str.split()\<close> without arguments: maximal runs of non-whitespace characters.
  Whitespace is what \<^verbatim>\<open>str.isspace\<close> accepts: below 256 these are the code points 9 to 13,
  28 to 32, 133 (U+0085) and 160 (U+00A0).
\<close>

definition is_space :: "char \<Rightarrow> bool" where
  "is_space c = (of_char c \<in> {9, 10, 11, 12, 13, 28, 29, 30, 31, 32, 133, 160 :: nat})"

fun split_from :: "string \<Rightarrow> string \<Rightarrow> string list" where
  "split_from token [] = (if token = [] then [] else [token])"
| "split_from token (c # cs) =
     (if is_space c then (if token = [] then split_from [] cs else token # split_from [] cs)
      else split_from (token @ [c]) cs)"

definition py_split :: "string \<Rightarrow> string list" where
  "py_split s = split_from [] s"

text \<open>
  \<^verbatim>\<open>str(Path(token))\<close> on POSIX, the form under which the path is looked up and reported:
  the root is \<^verbatim>\<open>//\<close> for exactly two leading slashes and \<^verbatim>\<open>/\<close> for any other number of
  them; empty components and \<^verbatim>\<open>.\<close> components are dropped; the rest is joined by \<^verbatim>\<open>/\<close>;
  an empty result is \<^verbatim>\<open>.\<close>.
\<close>

text \<open>\<^verbatim>\<open>rel.split('/')\<close>, with the component read so far.\<close>

fun split_sep :: "string \<Rightarrow> string \<Rightarrow> string list" where
  "split_sep seg [] = [seg]"
| "split_sep seg (c # cs) =
     (if c = CHR ''/'' then seg # split_sep [] cs else split_sep (seg @ [c]) cs)"

text \<open>\<^verbatim>\<open>'/'.join(tail)\<close>.\<close>

fun join_sep :: "string list \<Rightarrow> string" where
  "join_sep [] = []"
| "join_sep [p] = p"
| "join_sep (p # q # ps) = p @ ''/'' @ join_sep (q # ps)"

text \<open>\<^verbatim>\<open>posixpath.splitroot\<close>: the root and the rest.\<close>

definition splitroot :: "string \<Rightarrow> string \<times> string" where
  "splitroot p =
     (if take 1 p \<noteq> ''/'' then ([], p)
      else if take 1 (drop 1 p) \<noteq> ''/'' \<or> take 1 (drop 2 p) = ''/'' then (''/'', drop 1 p)
      else (''//'', drop 2 p))"

definition path_str :: "string \<Rightarrow> string" where
  "path_str p =
     (case splitroot p of
        (root, rel) \<Rightarrow>
          let tail = filter (\<lambda>x. x \<noteq> [] \<and> x \<noteq> ''.'') (split_sep [] rel);
              shown = root @ join_sep tail
          in if shown = [] then ''.'' else shown)"

text \<open>\<^verbatim>\<open>get_hooks_config\<close>: \<^verbatim>\<open>get_setting("hooks", {})\<close> on the loaded settings document.\<close>

definition get_setting :: "json \<Rightarrow> string list \<Rightarrow> json \<Rightarrow> json" where
  "get_setting settings key_path dflt =
     (case get_path settings key_path of None \<Rightarrow> dflt | Some v \<Rightarrow> v)"

definition get_hooks_config :: "json \<Rightarrow> json" where
  "get_hooks_config settings = get_setting settings [''hooks''] (JObj [])"

text \<open>
  The script token of a command: the second token after an interpreter name, the first
  token otherwise. \<^verbatim>\<open>command_parts[0]\<close> raises \<^verbatim>\<open>IndexError\<close> on an empty list.
\<close>

definition script_path_of :: "string list \<Rightarrow> py_exn + string" where
  "script_path_of command_parts =
     (if 2 \<le> length command_parts \<and> hd command_parts \<in> {''python3'', ''python'', ''node''}
      then Inr (command_parts ! 1)
      else case command_parts of [] \<Rightarrow> Inl IndexError | first # _ \<Rightarrow> Inr first)"

text \<open>
  \<^verbatim>\<open>if not script_path.exists(): ... elif not script_path.is_file(): ...\<close> for the path
  \<^verbatim>\<open>Path(token)\<close>: the errors appended, or the exception the probe raises.
\<close>

definition check_script ::
    "(string \<Rightarrow> py_exn + path_kind option) \<Rightarrow> string \<Rightarrow> py_exn + hook_error list" where
  "check_script probe token =
     (let script_path = path_str token in
      case probe script_path of
        Inl e \<Rightarrow> Inl e
      | Inr None \<Rightarrow> Inr [ScriptNotFound script_path]
      | Inr (Some RegularFile) \<Rightarrow> Inr []
      | Inr (Some OtherEntry) \<Rightarrow> Inr [NotAFile script_path])"

text \<open>The body of the inner loop for one hook entry: the errors it appends.\<close>

definition check_hook ::
    "(string \<Rightarrow> py_exn + path_kind option) \<Rightarrow> string \<Rightarrow> nat \<Rightarrow> json
       \<Rightarrow> py_exn + hook_error list" where
  "check_hook probe hook_type i hook =
     (case hook of
        JObj d \<Rightarrow>
          (let command = (case map_of d ''command'' of None \<Rightarrow> JStr [] | Some c \<Rightarrow> c) in
           if \<not> truthy command then Inr [MissingCommand hook_type i]
           else case command of
                  JStr s \<Rightarrow> then_do (script_path_of (py_split s)) (check_script probe)
                | _ \<Rightarrow> Inl AttributeError)
      | _ \<Rightarrow> Inr [ShouldBeDict hook_type i])"

fun check_hook_list ::
    "(string \<Rightarrow> py_exn + path_kind option) \<Rightarrow> string \<Rightarrow> nat \<Rightarrow> json list
       \<Rightarrow> py_exn + hook_error list" where
  "check_hook_list probe hook_type i [] = Inr []"
| "check_hook_list probe hook_type i (hook # hooks) =
     (case check_hook probe hook_type i hook of
        Inl e \<Rightarrow> Inl e
      | Inr errs \<Rightarrow>
          (case check_hook_list probe hook_type (i + 1) hooks of
             Inl e \<Rightarrow> Inl e
           | Inr later \<Rightarrow> Inr (errs @ later)))"

fun check_hook_types ::
    "(string \<Rightarrow> py_exn + path_kind option) \<Rightarrow> dict \<Rightarrow> py_exn + hook_error list" where
  "check_hook_types probe [] = Inr []"
| "check_hook_types probe ((hook_type, hook_list) # rest) =
     (case (case hook_list of
              JArr hooks \<Rightarrow> check_hook_list probe hook_type 0 hooks
            | _ \<Rightarrow> Inr [ShouldBeList hook_type]) of
        Inl e \<Rightarrow> Inl e
      | Inr errs \<Rightarrow>
          (case check_hook_types probe rest of
             Inl e \<Rightarrow> Inl e
           | Inr later \<Rightarrow> Inr (errs @ later)))"

definition validate_hooks_paths ::
    "(string \<Rightarrow> py_exn + path_kind option) \<Rightarrow> json
       \<Rightarrow> py_exn + (bool \<times> hook_error list)" where
  "validate_hooks_paths probe settings =
     (let hooks_config = get_hooks_config settings in
      if \<not> truthy hooks_config then Inr (True, [])
      else case hooks_config of
             JObj d \<Rightarrow>
               then_do (check_hook_types probe d) (\<lambda>errors. Inr (errors = [], errors))
           | _ \<Rightarrow> Inl AttributeError)"

text \<open>Example: a settings document whose only hook has a blank command.\<close>

definition blank_command_settings :: json where
  "blank_command_settings =
     JObj [(''hooks'', JObj [(''preToolUse'',
        JArr [JObj [(''matcher'', JStr ''^Read$''), (''command'', JStr '' '')]])])]"

text \<open>
  Example: a command that is one token of 300 letters, on a file system where a path
  component longer than 255 characters makes \<^verbatim>\<open>os.stat\<close> fail with \<^verbatim>\<open>ENAMETOOLONG\<close> and
  nothing else exists.
\<close>

definition long_name :: string where
  "long_name = replicate 300 (CHR ''a'')"

definition long_command_settings :: json where
  "long_command_settings =
     JObj [(''hooks'', JObj [(''preToolUse'',
        JArr [JObj [(''matcher'', JStr ''^Read$''), (''command'', JStr long_name)]])])]"

definition name_limit_probe :: "string \<Rightarrow> py_exn + path_kind option" where
  "name_limit_probe p =
     (if list_ex (\<lambda>seg. 255 < length seg) (split_sep [] p) then Inl OSError else Inr None)"

text \<open>Example: a file system that holds the directory \<^verbatim>\<open>/opt/hooks\<close> and nothing else.\<close>

definition hooks_dir_probe :: "string \<Rightarrow> py_exn + path_kind option" where
  "hooks_dir_probe p = (if p = ''/opt/hooks'' then Inr (Some OtherEntry) else Inr None)"

section \<open>Settings backups\<close>

text \<open>
  The files \<^verbatim>\<open>restore_backup\<close> touches: \<^verbatim>\<open>settings.json\<close> (\<open>None\<close> when it does not
  exist) and the backup directory, a table from file name to file. A file is its bytes
  and its modification time (\<^verbatim>\<open>shutil.copy2\<close> copies both). Backup names are plain file
  names inside the backup directory; reads and writes of files that exist succeed, and
  so do deletions.
\<close>

record stored_file =
  file_bytes :: string
  file_mtime :: nat

record settings_store =
  settings_file :: "stored_file option"
  backup_dir :: "(string \<times> stored_file) list"

text \<open>
  Reading a file opened with \<^verbatim>\<open>encoding='utf-8'\<close> decodes it strictly: the bytes must be
  well-formed UTF-8 (no overlong form, no surrogate, nothing above U+10FFFF), or
  \<^verbatim>\<open>UnicodeDecodeError\<close> is raised.
\<close>

definition continuation :: "nat \<Rightarrow> bool" where
  "continuation b = (128 \<le> b \<and> b \<le> 191)"

fun utf8_ok :: "nat list \<Rightarrow> bool" where
  "utf8_ok [] = True"
| "utf8_ok (b # bs) =
     (if b < 128 then utf8_ok bs
      else if 194 \<le> b \<and> b \<le> 223 then
        (case bs of
           c1 # r \<Rightarrow> continuation c1 \<and> utf8_ok r
         | _ \<Rightarrow> False)
      else if 224 \<le> b \<and> b \<le> 239 then
        (case bs of
           c1 # c2 # r \<Rightarrow>
             (if b = 224 then 160 \<le> c1 \<and> c1 \<le> 191
              else if b = 237 then 128 \<le> c1 \<and> c1 \<le> 159
              else continuation c1)
             \<and> continuation c2 \<and> utf8_ok r
         | _ \<Rightarrow> False)
      else if 240 \<le> b \<and> b \<le> 244 then
        (case bs of
           c1 # c2 # c3 # r \<Rightarrow>
             (if b = 240 then 144 \<le> c1 \<and> c1 \<le> 191
              else if b = 244 then 128 \<le> c1 \<and> c1 \<le> 143
              else continuation c1)
             \<and> continuation c2 \<and> continuation c3 \<and> utf8_ok r
         | _ \<Rightarrow> False)
      else False)"

text \<open>
  \<^verbatim>\<open>json.load(f)\<close> on a file's bytes: decode, then parse. \<open>parses\<close> says which texts
  \<^verbatim>\<open>json.loads\<close> accepts; the parsed value is thrown away.
\<close>

definition json_load :: "(string \<Rightarrow> bool) \<Rightarrow> string \<Rightarrow> py_exn + unit" where
  "json_load parses bytes =
     (if \<not> utf8_ok (map of_char bytes) then Inl UnicodeDecodeError
      else if parses bytes then Inr ()
      else Inl JSONDecodeError)"

text \<open>The glob pattern \<^verbatim>\<open>settings_*.json\<close>.\<close>

definition glob_match :: "string \<Rightarrow> bool" where
  "glob_match name =
     (14 \<le> length name \<and> take 9 name = ''settings_''
      \<and> drop (length name - 5) name = ''.json'')"

text \<open>
  \<^verbatim>\<open>backup_files.sort(reverse=True)\<close> on pairs of modification time and path: later
  time first, and for equal times the greater name first.
\<close>

fun str_less :: "string \<Rightarrow> string \<Rightarrow> bool" where
  "str_less [] [] = False"
| "str_less [] (y # ys) = True"
| "str_less (x # xs) [] = False"
| "str_less (x # xs) (y # ys) =
     ((of_char x :: nat) < of_char y \<or> (x = y \<and> str_less xs ys))"

definition sorts_before :: "nat \<times> string \<Rightarrow> nat \<times> string \<Rightarrow> bool" where
  "sorts_before a b = (fst b < fst a \<or> (fst a = fst b \<and> str_less (snd b) (snd a)))"

fun insert_sorted :: "nat \<times> string \<Rightarrow> (nat \<times> string) list \<Rightarrow> (nat \<times> string) list" where
  "insert_sorted x [] = [x]"
| "insert_sorted x (y # ys) =
     (if sorts_before x y then x # y # ys else y # insert_sorted x ys)"

definition sort_reverse :: "(nat \<times> string) list \<Rightarrow> (nat \<times> string) list" where
  "sort_reverse xs = foldr insert_sorted xs []"

text \<open>\<^verbatim>\<open>_cleanup_old_backups\<close>.\<close>

definition cleanup_old_backups ::
    "nat \<Rightarrow> (string \<times> stored_file) list \<Rightarrow> (string \<times> stored_file) list" where
  "cleanup_old_backups keep_count dir =
     (let backup_files =
            map (\<lambda>(name, f). (file_mtime f, name)) (filter (\<lambda>(name, f). glob_match name) dir);
          old = map snd (drop keep_count (sort_reverse backup_files))
      in filter (\<lambda>(name, f). name \<notin> set old) dir)"

text \<open>\<^verbatim>\<open>_create_settings_backup\<close>; \<open>timestamp\<close> is the formatted current time.\<close>

definition create_settings_backup :: "string \<Rightarrow> settings_store \<Rightarrow> py_exn + settings_store" where
  "create_settings_backup timestamp store =
     (case settings_file store of
        None \<Rightarrow> Inl ValueError
      | Some current \<Rightarrow>
          Inr (store\<lparr>backup_dir :=
                 cleanup_old_backups 10
                   (dict_set (backup_dir store) (''settings_'' @ timestamp @ ''.json'') current)\<rparr>))"

text \<open>
  \<^verbatim>\<open>restore_backup\<close>:
  \<^verbatim>\<open>
    if not backup_file.exists(): return False
    try:
        with open(backup_file, 'r', encoding='utf-8') as f:
            json.load(f)
        if self.settings_file.exists():
            self._create_settings_backup()
        shutil.copy2(backup_file, self.settings_file)
        return True
    except (json.JSONDecodeError, IOError):
        return False
  \<close>
\<close>

definition restore_handler :: "py_exn \<Rightarrow> py_exn + bool" where
  "restore_handler e = (if e = JSONDecodeError \<or> is_OSError e then Inr False else Inl e)"

definition restore_backup ::
    "(string \<Rightarrow> bool) \<Rightarrow> string \<Rightarrow> settings_store \<Rightarrow> string
       \<Rightarrow> settings_store \<times> (py_exn + bool)" where
  "restore_backup parses timestamp store backup_name =
     (case map_of (backup_dir store) backup_name of
        None \<Rightarrow> (store, Inr False)
      | Some backup \<Rightarrow>
          (case json_load parses (file_bytes backup) of
             Inl e \<Rightarrow> (store, restore_handler e)
           | Inr ok \<Rightarrow>
               (case (if settings_file store \<noteq> None then create_settings_backup timestamp store
                      else Inr store) of
                  Inl e \<Rightarrow> (store, restore_handler e)
                | Inr saved \<Rightarrow>
                    (case map_of (backup_dir saved) backup_name of
                       None \<Rightarrow> (saved, restore_handler OSError)
                     | Some copied \<Rightarrow> (saved\<lparr>settings_file := Some copied\<rparr>, Inr True)))))"

text \<open>
  Example: live settings, one good backup, one backup that holds the single byte
  \<^verbatim>\<open>0xFF\<close>, and one that holds text that is no JSON.
\<close>

definition example_store :: settings_store where
  "example_store =
     \<lparr>settings_file = Some \<lparr>file_bytes = ''{ }'', file_mtime = 30\<rparr>,
      backup_dir =
        [(''settings_20240101_120000.json'', \<lparr>file_bytes = ''{}'', file_mtime = 10\<rparr>),
         (''settings_20240102_120000.json'', \<lparr>file_bytes = [CHR 0xFF], file_mtime = 20\<rparr>),
         (''settings_20240103_120000.json'', \<lparr>file_bytes = ''{oops'', file_mtime = 25\<rparr>)]\<rparr>"

section \<open>Deep-merge engine (heap level)\<close>

text \<open>
  Python lists and dictionaries are objects with identity: \<^verbatim>\<open>result[key] = x\<close> changes the
  object \<open>result\<close> names, and whoever else holds it sees the change. The heap is the list
  of all objects, an address is an index into it, and a new object goes at the end.
  Scalars are immutable and carry no identity.
\<close>

type_synonym addr = nat

datatype pyval = VNull | VBool bool | VNum int | VStr string | VRef addr

datatype pyobj = OList "pyval list" | ODict "(string \<times> pyval) list"

type_synonym heap = "pyobj list"

text \<open>
  \<open>repr_in A h v j\<close>: in heap \<open>h\<close> the value \<open>v\<close> is the JSON document \<open>j\<close>, and every
  object of it lives at an address in \<open>A\<close>.
\<close>

fun repr_in :: "addr set \<Rightarrow> heap \<Rightarrow> pyval \<Rightarrow> json \<Rightarrow> bool" where
  "repr_in A h v JNull = (v = VNull)"
| "repr_in A h v (JBool b) = (v = VBool b)"
| "repr_in A h v (JNum n) = (v = VNum n)"
| "repr_in A h v (JStr s) = (v = VStr s)"
| "repr_in A h v (JArr js) =
     (case v of
        VRef a \<Rightarrow>
          a \<in> A \<and> a < length h
          \<and> (case h ! a of
                OList vs \<Rightarrow> list_all2 (\<lambda>x j. repr_in A h x j) vs js
              | ODict kvs \<Rightarrow> False)
      | _ \<Rightarrow> False)"
| "repr_in A h v (JObj jkvs) =
     (case v of
        VRef a \<Rightarrow>
          a \<in> A \<and> a < length h
          \<and> (case h ! a of
                ODict kvs \<Rightarrow>
                  list_all2 (\<lambda>kv kj. fst kv = fst kj \<and> repr_in A h (snd kv) (snd kj)) kvs jkvs
              | OList vs \<Rightarrow> False)
      | _ \<Rightarrow> False)"

text \<open>The nesting depth of a document: how deep \<^verbatim>\<open>copy.deepcopy\<close> recurses on it.\<close>

fun max_list :: "nat list \<Rightarrow> nat" where
  "max_list [] = 0"
| "max_list (n # ns) = max n (max_list ns)"

fun depth :: "json \<Rightarrow> nat" where
  "depth (JArr js) = Suc (max_list (map depth js))"
| "depth (JObj jkvs) = Suc (max_list (map (\<lambda>kj. depth (snd kj)) jkvs))"
| "depth _ = 0"

definition items_depth :: "dict \<Rightarrow> nat" where
  "items_depth jkvs = max_list (map (\<lambda>kj. depth (snd kj)) jkvs)"

text \<open>\<open>repr_items\<close>: the items of a dictionary object are those of a JSON object.\<close>

definition repr_items ::
    "addr set \<Rightarrow> heap \<Rightarrow> (string \<times> pyval) list \<Rightarrow> (string \<times> json) list \<Rightarrow> bool" where
  "repr_items A h kvs jkvs =
     list_all2 (\<lambda>kv kj. fst kv = fst kj \<and> repr_in A h (snd kv) (snd kj)) kvs jkvs"

text \<open>\<open>extends h h'\<close>: every object of \<open>h\<close> is still in \<open>h'\<close>, unchanged, at its address.\<close>

definition extends :: "heap \<Rightarrow> heap \<Rightarrow> bool" where
  "extends h h' = (length h \<le> length h' \<and> take (length h) h' = h)"

text \<open>
  \<^verbatim>\<open>copy.deepcopy\<close>: a scalar is returned as it is; a list or dictionary is rebuilt from
  copies of its members as a new object. \<open>fuel\<close> bounds the recursion depth (Python's
  recursion limit); \<open>None\<close> is running out of it, or following an address that is not
  in the heap. The memo table of \<^verbatim>\<open>deepcopy\<close>, which only matters for shared or cyclic
  structure, is not modelled: JSON documents are trees.
\<close>

fun deepcopy_h :: "nat \<Rightarrow> heap \<Rightarrow> pyval \<Rightarrow> (heap \<times> pyval) option"
  and deepcopy_list :: "nat \<Rightarrow> heap \<Rightarrow> pyval list \<Rightarrow> (heap \<times> pyval list) option"
  and deepcopy_items ::
    "nat \<Rightarrow> heap \<Rightarrow> (string \<times> pyval) list \<Rightarrow> (heap \<times> (string \<times> pyval) list) option" where
  "deepcopy_h fuel h (VRef a) =
     (case fuel of
        0 \<Rightarrow> None
      | Suc n \<Rightarrow>
          if a < length h then
            (case h ! a of
               OList vs \<Rightarrow>
                 (case deepcopy_list n h vs of
                    None \<Rightarrow> None
                  | Some (h', vs') \<Rightarrow> Some (h' @ [OList vs'], VRef (length h')))
             | ODict kvs \<Rightarrow>
                 (case deepcopy_items n h kvs of
                    None \<Rightarrow> None
                  | Some (h', kvs') \<Rightarrow> Some (h' @ [ODict kvs'], VRef (length h'))))
          else None)"
| "deepcopy_h fuel h VNull = Some (h, VNull)"
| "deepcopy_h fuel h (VBool b) = Some (h, VBool b)"
| "deepcopy_h fuel h (VNum n) = Some (h, VNum n)"
| "deepcopy_h fuel h (VStr s) = Some (h, VStr s)"
| "deepcopy_list fuel h [] = Some (h, [])"
| "deepcopy_list fuel h (v # vs) =
     (case deepcopy_h fuel h v of
        None \<Rightarrow> None
      | Some (h1, v') \<Rightarrow>
          (case deepcopy_list fuel h1 vs of
             None \<Rightarrow> None
           | Some (h2, vs') \<Rightarrow> Some (h2, v' # vs')))"
| "deepcopy_items fuel h [] = Some (h, [])"
| "deepcopy_items fuel h ((k, v) # kvs) =
     (case deepcopy_h fuel h v of
        None \<Rightarrow> None
      | Some (h1, v') \<Rightarrow>
          (case deepcopy_items fuel h1 kvs of
             None \<Rightarrow> None
           | Some (h2, kvs') \<Rightarrow> Some (h2, (k, v') # kvs')))"

text \<open>\<^verbatim>\<open>isinstance(v, dict)\<close> for a value in a heap.\<close>

definition is_dict_in :: "heap \<Rightarrow> pyval \<Rightarrow> bool" where
  "is_dict_in h v =
     (case v of
        VRef a \<Rightarrow> a < length h \<and> (case h ! a of ODict kvs \<Rightarrow> True | OList vs \<Rightarrow> False)
      | _ \<Rightarrow> False)"

text \<open>\<^verbatim>\<open>result[key] = x\<close> for the dictionary at address \<open>r\<close>.\<close>

definition store_item :: "heap \<Rightarrow> addr \<Rightarrow> string \<Rightarrow> pyval \<Rightarrow> heap" where
  "store_item h r key x =
     (case h ! r of
        ODict res \<Rightarrow> h[r := ODict (dict_set res key x)]
      | OList vs \<Rightarrow> h)"

text \<open>
  \<^verbatim>\<open>_deep_merge\<close> on the heap. \<open>merge_loop\<close> is the \<^verbatim>\<open>for\<close> loop over the overlay's items,
  with \<open>r\<close> the address of \<open>result\<close>; each iteration reads \<open>result[key]\<close> from the heap as
  it is then. The arguments are dictionaries (anything else is \<open>None\<close>).
\<close>

fun deep_merge_h :: "nat \<Rightarrow> heap \<Rightarrow> pyval \<Rightarrow> pyval \<Rightarrow> (heap \<times> pyval) option"
  and merge_loop :: "nat \<Rightarrow> heap \<Rightarrow> addr \<Rightarrow> (string \<times> pyval) list \<Rightarrow> heap option" where
  "deep_merge_h fuel h base overlay =
     (case fuel of
        0 \<Rightarrow> None
      | Suc n \<Rightarrow>
          if is_dict_in h base \<and> is_dict_in h overlay then
            (case deepcopy_h n h base of
               Some (h1, VRef r) \<Rightarrow>
                 (case overlay of
                    VRef ov \<Rightarrow>
                      (case h1 ! ov of
                         ODict items \<Rightarrow>
                           (case merge_loop n h1 r items of
                              None \<Rightarrow> None
                            | Some h2 \<Rightarrow> Some (h2, VRef r))
                       | OList vs \<Rightarrow> None)
                  | _ \<Rightarrow> None)
             | _ \<Rightarrow> None)
          else None)"
| "merge_loop fuel h r [] = Some h"
| "merge_loop fuel h r ((key, v) # rest) =
     (case h ! r of
        ODict res \<Rightarrow>
          (if map_of res key \<noteq> None \<and> is_dict_in h (the (map_of res key)) \<and> is_dict_in h v
           then
             (case deep_merge_h fuel h (the (map_of res key)) v of
                None \<Rightarrow> None
              | Some (h1, merged) \<Rightarrow> merge_loop fuel (store_item h1 r key merged) r rest)
           else
             (case deepcopy_h fuel h v of
                None \<Rightarrow> None
              | Some (h1, copied) \<Rightarrow> merge_loop fuel (store_item h1 r key copied) r rest))
      | OList vs \<Rightarrow> None)"

text \<open>
  Example: a heap that holds a base document (at address 1, with a nested dictionary at
  0) and an overlay (at address 4, with a nested dictionary at 3 that holds the list
  at 2).
\<close>

definition example_heap :: heap where
  "example_heap =
     [ODict [(''enabled'', VBool False), (''x'', VNum 1)],
      ODict [(''hooks'', VRef 0), (''theme'', VStr ''dark'')],
      OList [VNum 1, VNum 2],
      ODict [(''enabled'', VBool True), (''l'', VRef 2)],
      ODict [(''hooks'', VRef 3)]]"

definition example_base :: dict where
  "example_base =
     [(''hooks'', JObj [(''enabled'', JBool False), (''x'', JNum 1)]), (''theme'', JStr ''dark'')]"

definition example_overlay :: dict where
  "example_overlay =
     [(''hooks'', JObj [(''enabled'', JBool True), (''l'', JArr [JNum 1, JNum 2])])]"

section \<open>Properties of the deep-merge engine\<close>

lemma deepcopy_id: "deepcopy v = v"
proof (induction v)
  case (JArr xs)
  then show ?case by (simp add: map_idI)
next
  case (JObj kvs)
  have "map (map_prod id deepcopy) kvs = map id kvs"
  proof (rule map_cong[OF refl])
    fix kv assume "kv \<in> set kvs"
    moreover obtain k v where "kv = (k, v)" by (cases kv)
    ultimately show "map_prod id deepcopy kv = id kv"
      using JObj[of kv v] by simp
  qed
  then show ?case by simp
qed simp_all

lemma deepcopy_items_id: "map (map_prod id deepcopy) kvs = kvs"
  by (induction kvs) (auto simp: deepcopy_id)

lemma map_of_dict_set: "map_of (dict_set d k v) = (map_of d)(k \<mapsto> v)"
  by (induction d) auto

lemma keys_dict_set: "fst ` set (dict_set d k v) = insert k (fst ` set d)"
  by (simp add: dom_map_of_conv_image_fst[symmetric] map_of_dict_set)

lemma merge_items_step:
  "merge_items result ((key, v) # rest) =
   merge_items (dict_set result key (merge_value (map_of result key) v)) rest"
  by (auto simp: deepcopy_id split: option.splits json.splits)

lemma map_of_merge_items_other:
  "k \<notin> fst ` set overlay \<Longrightarrow> map_of (merge_items result overlay) k = map_of result k"
proof (induction overlay arbitrary: result)
  case Nil
  then show ?case by simp
next
  case (Cons kv rest)
  obtain key v where kv: "kv = (key, v)" by (cases kv)
  with Cons.prems have "k \<noteq> key" "k \<notin> fst ` set rest" by auto
  then show ?case unfolding kv merge_items_step
    by (simp add: Cons.IH map_of_dict_set)
qed

lemma map_of_merge_items_key:
  "distinct (map fst overlay) \<Longrightarrow> map_of overlay k = Some v \<Longrightarrow>
   map_of (merge_items result overlay) k = Some (merge_value (map_of result k) v)"
proof (induction overlay arbitrary: result)
  case Nil
  then show ?case by simp
next
  case (Cons kv rest)
  obtain key v' where kv: "kv = (key, v')" by (cases kv)
  show ?case
  proof (cases "k = key")
    case True
    with Cons.prems kv have "v' = v" "k \<notin> fst ` set rest" by auto
    then show ?thesis unfolding kv merge_items_step
      by (simp add: map_of_merge_items_other map_of_dict_set True)
  next
    case False
    with Cons.prems kv have "distinct (map fst rest)" "map_of rest k = Some v" by auto
    then show ?thesis unfolding kv merge_items_step
      using False by (simp add: Cons.IH map_of_dict_set)
  qed
qed

lemma map_of_deep_merge_key:
  "distinct (map fst overlay) \<Longrightarrow> map_of overlay k = Some v \<Longrightarrow>
   map_of (deep_merge base overlay) k = Some (merge_value (map_of base k) v)"
  by (simp add: deepcopy_items_id map_of_merge_items_key)

lemma merge_empty_overlay: "deep_merge a [] = a"
  by (simp add: deepcopy_items_id)

lemma merge_items_append:
  "distinct (map fst b) \<Longrightarrow> fst ` set r \<inter> fst ` set b = {} \<Longrightarrow> merge_items r b = r @ b"
proof (induction b arbitrary: r)
  case Nil
  then show ?case by simp
next
  case (Cons kv rest)
  obtain key v where kv: "kv = (key, v)" by (cases kv)
  from Cons.prems kv have nk: "key \<notin> fst ` set r" by auto
  then have m: "map_of r key = None" by (simp add: map_of_eq_None_iff)
  have ds: "dict_set r key v = r @ [(key, v)]" using nk by (induction r) auto
  have "merge_items (r @ [(key, v)]) rest = (r @ [(key, v)]) @ rest"
    using Cons.prems kv by (intro Cons.IH) auto
  then show ?case unfolding kv merge_items_step by (simp add: m ds)
qed

lemma merge_empty_base: "distinct (map fst b) \<Longrightarrow> deep_merge [] b = b"
  using merge_items_append[of b "[]"] by simp

lemma overlay_scalar_wins:
  "wf_json (JObj overlay) \<Longrightarrow> p \<noteq> [] \<Longrightarrow> get_path (JObj overlay) p = Some v \<Longrightarrow>
   \<not> is_dict v \<Longrightarrow> get_path (JObj (deep_merge base overlay)) p = Some v"
proof (induction p arbitrary: base overlay)
  case Nil
  then show ?case by simp
next
  case (Cons k ks)
  from Cons.prems obtain ov where ov: "map_of overlay k = Some ov" "get_path ov ks = Some v"
    by (auto split: option.splits)
  from Cons.prems have d: "distinct (map fst overlay)" by simp
  have wfov: "wf_json ov" using Cons.prems(1) ov(1) by (auto dest!: map_of_SomeD)
  have look: "map_of (deep_merge base overlay) k = Some (merge_value (map_of base k) ov)"
    by (rule map_of_deep_merge_key[OF d ov(1)])
  show ?case
  proof (cases ks)
    case Nil
    with ov have "ov = v" by simp
    with Cons.prems(4) have "merge_value (map_of base k) ov = v"
      by (cases "map_of base k"; cases v) (auto simp: is_dict_def split: json.splits)
    then show ?thesis using look Nil by simp
  next
    case (Cons k' ks')
    with ov obtain o' where o': "ov = JObj o'" by (cases ov) auto
    show ?thesis
    proof (cases "\<exists>b. map_of base k = Some (JObj b)")
      case True
      then obtain b where b: "map_of base k = Some (JObj b)" by blast
      have "get_path (JObj (deep_merge b o')) ks = Some v"
        using Cons.IH[of o' b] wfov o' ov(2) Cons Cons.prems(4) by simp
      then show ?thesis using look b o' by simp
    next
      case False
      have "merge_value (map_of base k) ov = ov"
      proof (cases "map_of base k")
        case None
        then show ?thesis by simp
      next
        case (Some a)
        with False show ?thesis by (cases a) (simp_all add: o')
      qed
      then show ?thesis using look ov(2) by simp
    qed
  qed
qed

text \<open>
  C2. Merging the empty dictionary onto \<open>a\<close> gives a structurally equal \<open>a\<close>; merging \<open>b\<close>
  onto the empty dictionary gives a structurally equal \<open>b\<close>; and at every key path where
  the overlay holds a non-mapping value, the merged result holds that value.
  Dictionaries hold each key once (\<open>distinct\<close>, \<open>wf_json\<close>).
\<close>

theorem deep_merge_units_and_overlay_scalars:
  "deep_merge a [] = a
   \<and> (distinct (map fst b) \<longrightarrow> deep_merge [] b = b)
   \<and> (wf_json (JObj overlay) \<and> p \<noteq> [] \<and> get_path (JObj overlay) p = Some v \<and> \<not> is_dict v
        \<longrightarrow> get_path (JObj (deep_merge base overlay)) p = Some v)"
  using merge_empty_overlay merge_empty_base overlay_scalar_wins by blast

theorem deep_merge_units_and_overlay_scalars_witness:
  "deep_merge [(''hooks'', JObj [(''enabled'', JBool False)]), (''theme'', JStr ''dark'')] []
     = [(''hooks'', JObj [(''enabled'', JBool False)]), (''theme'', JStr ''dark'')]
   \<and> distinct (map fst [(''theme'', JStr ''light''), (''n'', JNum 3)])
   \<and> deep_merge [] [(''theme'', JStr ''light''), (''n'', JNum 3)]
     = [(''theme'', JStr ''light''), (''n'', JNum 3)]
   \<and> wf_json (JObj [(''hooks'', JObj [(''enabled'', JBool True)])])
   \<and> get_path (JObj [(''hooks'', JObj [(''enabled'', JBool True)])]) [''hooks'', ''enabled'']
     = Some (JBool True)
   \<and> \<not> is_dict (JBool True)
   \<and> get_path
       (JObj (deep_merge
          [(''hooks'', JObj [(''enabled'', JBool False), (''x'', JNum 1)]), (''theme'', JStr ''dark'')]
          [(''hooks'', JObj [(''enabled'', JBool True)])]))
       [''hooks'', ''enabled'']
     = Some (JBool True)"
  using deep_merge_units_and_overlay_scalars
    [of "[(''hooks'', JObj [(''enabled'', JBool False)]), (''theme'', JStr ''dark'')]"
        "[(''theme'', JStr ''light''), (''n'', JNum 3)]"
        "[(''hooks'', JObj [(''enabled'', JBool True)])]"
        "[''hooks'', ''enabled'']"
        "JBool True"
        "[(''hooks'', JObj [(''enabled'', JBool False), (''x'', JNum 1)]), (''theme'', JStr ''dark'')]"]
  by (simp add: is_dict_def)

section \<open>Properties of the hook configuration validator\<close>

lemma validate_hook_iff: "validate_hook h = hook_entry_ok h"
proof (cases h)
  case (JObj d)
  show ?thesis
  proof (cases "map_of d ''matcher''")
    case None
    then show ?thesis by (simp add: validate_hook_def hook_entry_ok_def JObj)
  next
    case m: (Some mv)
    show ?thesis
    proof (cases "map_of d ''command''")
      case None
      then show ?thesis by (simp add: validate_hook_def hook_entry_ok_def JObj)
    next
      case c: (Some cv)
      show ?thesis
        by (cases mv; cases cv) (simp_all add: validate_hook_def hook_entry_ok_def JObj m c is_str_def)
    qed
  qed
qed (simp_all add: validate_hook_def hook_entry_ok_def)

lemma validate_hook_list_iff: "validate_hook_list hooks = (\<forall>h \<in> set hooks. hook_entry_ok h)"
  by (induction hooks) (simp_all add: validate_hook_iff)

text \<open>
  C4. \<open>validate\<close> returns true exactly when every top-level key is one of the six hook
  types, every top-level value is a sequence, and every element of each sequence is a
  mapping with string-valued \<open>matcher\<close> and \<open>command\<close> (other keys are not looked at); one
  violation anywhere makes it false.
\<close>

theorem validate_hooks_config_iff: "validate_hooks_config cfg = hooks_config_ok cfg"
proof (induction cfg)
  case Nil
  show ?case by (simp add: hooks_config_ok_def)
next
  case (Cons kv rest)
  obtain hook_type hook_list where kv: "kv = (hook_type, hook_list)" by (cases kv)
  have split: "hooks_config_ok (kv # rest) =
      (hook_type \<in> set valid_hook_types
        \<and> (\<exists>hooks. hook_list = JArr hooks \<and> (\<forall>h \<in> set hooks. hook_entry_ok h))
        \<and> hooks_config_ok rest)"
    by (simp add: hooks_config_ok_def kv valid_hook_types_def)
  have "validate_hooks_config (kv # rest) =
      (hook_type \<in> set valid_hook_types
        \<and> (\<exists>hooks. hook_list = JArr hooks \<and> (\<forall>h \<in> set hooks. hook_entry_ok h))
        \<and> hooks_config_ok rest)"
    unfolding kv by (cases hook_list) (simp_all add: Cons.IH validate_hook_list_iff)
  with split show ?case by simp
qed

theorem validate_hooks_config_iff_witness:
  "validate_hooks_config
     [(''preToolUse'', JArr [JObj [(''matcher'', JStr ''^Read$''), (''command'', JStr ''run.sh''),
                                   (''timeout'', JNum 5)]])]
   \<and> \<not> validate_hooks_config [(''badType'', JArr [])]
   \<and> \<not> hooks_config_ok
       [(''preToolUse'', JArr [JObj [(''matcher'', JStr ''^Read$''), (''command'', JStr ''run.sh'')]]),
        (''stop'', JArr [JObj [(''matcher'', JNum 1), (''command'', JStr ''run.sh'')]])]"
  using validate_hooks_config_iff
    [of "[(''preToolUse'', JArr [JObj [(''matcher'', JStr ''^Read$''), (''command'', JStr ''run.sh'')]]),
          (''stop'', JArr [JObj [(''matcher'', JNum 1), (''command'', JStr ''run.sh'')]])]"]
  by (simp add: validate_hook_def valid_hook_types_def is_str_def)

section \<open>Properties of the tool-call interceptor\<close>

lemma then_do_Inr [simp]: "then_do (Inr x) f = f x"
  by (simp add: then_do_def)

lemma then_do_Inl [simp]: "then_do (Inl e) f = Inl e"
  by (simp add: then_do_def)







lemma then_do_eq_Inr: "then_do m f = Inr y \<longleftrightarrow> (\<exists>x. m = Inr x \<and> f x = Inr y)"
  by (cases m) simp_all

lemma safe_block_response_shape:
  "safe_block_response tool_name chunked_call = Inr response \<Longrightarrow>
   action_of response = Some (JStr ''block'') \<and> entry_of response ''exit_code'' = Some (JNum 2)"
  by (auto simp: safe_block_response_def then_do_eq_Inr action_of_def entry_of_def)

lemma morph_block_response_shape:
  "morph_block_response tool_name morph_call = Inr response \<Longrightarrow>
   action_of response = Some (JStr ''block'') \<and> entry_of response ''exit_code'' = Some (JNum 2)"
  by (auto simp: morph_block_response_def then_do_eq_Inr action_of_def entry_of_def)

lemma log_interception_counters [simp]:
  "total_operations (log_interception s tn a) = total_operations s"
  "morph_operations (log_interception s tn a) = morph_operations s"
  "native_operations (log_interception s tn a) = native_operations s"
  "fallback_operations (log_interception s tn a) = fallback_operations s"
  by (simp_all add: log_interception_def)

lemma route_tool_call_returns:
  assumes "route_tool_call env self flags tool_name tool_input = (self', Inr response)"
  shows "total_operations self' = total_operations self
       \<and> ((native_operations self' = native_operations self + 1
            \<and> morph_operations self' = morph_operations self
            \<and> fallback_operations self' = fallback_operations self
            \<and> allow_shape response)
          \<or> (native_operations self' = native_operations self
            \<and> morph_operations self' = morph_operations self + 1
            \<and> fallback_operations self' = fallback_operations self
            \<and> block_shape response)
          \<or> (native_operations self' = native_operations self
            \<and> morph_operations self' = morph_operations self
            \<and> fallback_operations self' = fallback_operations self + 1
            \<and> allow_shape response))"
proof (cases "should_use_safe_directory_tree env tool_name tool_input")
  case (Inl e)
  with assms show ?thesis by (simp add: route_tool_call_def)
next
  case safe: (Inr b)
  show ?thesis
  proof (cases b)
    case True
    with assms safe show ?thesis
      by (auto simp: route_tool_call_def Let_def block_shape_def then_do_eq_Inr
          dest!: safe_block_response_shape split: sum.splits)
  next
    case False
    show ?thesis
    proof (cases "should_intercept env self tool_name tool_input flags")
      case (Inl e)
      with assms safe False show ?thesis by (simp add: route_tool_call_def)
    next
      case int: (Inr i)
      show ?thesis
      proof (cases i)
        case no: False
        with assms safe False int show ?thesis
          by (auto simp: route_tool_call_def Let_def allow_shape_def action_of_def entry_of_def)
      next
        case yes: True
        show ?thesis
        proof (cases "validate_morph_server env")
          case unavailable: False
          with assms safe False int yes show ?thesis
            by (auto simp: route_tool_call_def Let_def allow_shape_def
                create_fallback_response_def action_of_def entry_of_def)
        next
          case available: True
          show ?thesis
          proof (cases "create_morph_tool_call tool_name tool_input")
            case (Inl e)
            with assms safe False int yes available show ?thesis
              by (simp add: route_tool_call_def)
          next
            case (Inr morph_call)
            with assms safe False int yes available
            have "morph_block_response tool_name morph_call = Inr response"
              and "self' = (log_interception self tool_name ''intercept'')
                     \<lparr>morph_operations :=
                        morph_operations (log_interception self tool_name ''intercept'') + 1\<rparr>"
              by (auto simp: route_tool_call_def Let_def)
            then show ?thesis
              using morph_block_response_shape[of tool_name morph_call response]
              by (simp add: block_shape_def)
          qed
        qed
      qed
    qed
  qed
qed

lemma process_tool_call_counted:
  assumes "process_tool_call env self tool_name tool_input = (self', Inr response)"
  shows "counted_once self self'"
  using route_tool_call_returns[OF assms[unfolded process_tool_call_def]]
  by (auto simp: counted_once_def count_operation_def)


lemma process_tool_calls_counters:
  "process_tool_calls self calls = (final, outcomes) \<Longrightarrow>
   (\<forall>out \<in> set outcomes. \<exists>r. out = Inr r) \<Longrightarrow>
   total_operations final = total_operations self + length calls
   \<and> counters_sum final = counters_sum self + length calls"
proof (induction calls arbitrary: self outcomes)
  case Nil
  then show ?case by simp
next
  case (Cons c calls)
  obtain env tn ti where c: "c = (env, tn, ti)" by (cases c)
  obtain s1 out where p: "process_tool_call env self tn ti = (s1, out)"
    by (cases "process_tool_call env self tn ti")
  obtain f outs where r: "process_tool_calls s1 calls = (f, outs)"
    by (cases "process_tool_calls s1 calls")
  from Cons.prems(1) c p r have eq: "final = f" "outcomes = out # outs" by auto
  with Cons.prems(2) obtain resp where "out = Inr resp" by auto
  with p have "counted_once self s1" using process_tool_call_counted by blast
  then have step: "total_operations s1 = total_operations self + 1"
      "counters_sum s1 = counters_sum self + 1"
    by (auto simp: counted_once_def counters_sum_def)
  from Cons.prems(2) eq have "\<forall>out \<in> set outs. \<exists>r. out = Inr r" by simp
  with Cons.IH[of s1 outs] r eq
  have "total_operations f = total_operations s1 + length calls
      \<and> counters_sum f = counters_sum s1 + length calls" by simp
  with step eq show ?case by simp
qed

text \<open>
  C6, as amended. Every call that returns a decision increments \<open>total_operations\<close> by
  one and exactly one of \<open>native_operations\<close>, \<open>morph_operations\<close> and
  \<open>fallback_operations\<close> by one; so after a sequence of calls that all returned, the three
  counters sum to \<open>total_operations\<close> if they did before. (A call that raises has counted
  the operation and nothing else, see the counterexample.)
\<close>

theorem counters_follow_returned_calls:
  "(process_tool_call env self tool_name tool_input = (self', Inr response)
      \<longrightarrow> counted_once self self')
   \<and> (process_tool_calls self calls = (final, outcomes)
        \<and> (\<forall>out \<in> set outcomes. \<exists>r. out = Inr r)
        \<and> counters_sum self = total_operations self
      \<longrightarrow> total_operations final = total_operations self + length calls
          \<and> counters_sum final = total_operations final)"
  using process_tool_call_counted process_tool_calls_counters by metis

lemmas interceptor_eval =
  process_tool_call_def route_tool_call_def count_operation_def parse_flags_def env_truthy_def
  should_use_safe_directory_tree_def detect_token_overflow_risk_def in_dict_keys_def
  MORPH_TOOLS_WITH_FALLBACK_def TOOL_MAPPING_def should_intercept_def should_auto_activate_def
  is_batch_operation_def is_large_directory_operation_def is_performance_critical_operation_def
  large_file_check_def py_get_def py_getitem_def py_contains_def py_len_def
  filesystem_operations_threshold_def batch_edits_threshold_def validate_morph_server_def
  create_morph_tool_call_def tool_mapping_get_def map_tool_parameters_def
  map_multiedit_parameters_def log_interception_def create_fallback_response_def
  create_chunked_directory_sequence_def safe_block_response_def morph_block_response_def
  os_path_exists_def os_path_isdir_def os_path_getsize_def os_stat_def os_listdir_def
  os_path_join_def problematic_subdirs_def morph_flags_def new_interceptor_def Let_def
  is_OSError_def is_ValueError_def

lemma example_read_allowed:
  "process_tool_call env_plain new_interceptor (JStr ''Read'')
     (JObj [(''file_path'', JStr ''/proj/a.py'')])
   = (\<lparr>total_operations = 1, morph_operations = 0, native_operations = 1,
        fallback_operations = 0, log_lines = [(JStr ''Read'', ''allow'', 1, 0, 1, 0)]\<rparr>,
      Inr (JObj [(''action'', JStr ''allow'')]))"
  by (simp add: interceptor_eval env_plain_def)

lemma example_tree_blocked:
  "fst (process_tool_call env_no_morph
     \<lparr>total_operations = 1, morph_operations = 0, native_operations = 1,
        fallback_operations = 0, log_lines = [(JStr ''Read'', ''allow'', 1, 0, 1, 0)]\<rparr>
     (JStr ''mcp__filesystem-with-morph__directory_tree'') (JObj [(''path'', JStr ''/proj'')]))
   = \<lparr>total_operations = 2, morph_operations = 1, native_operations = 1,
        fallback_operations = 0,
        log_lines = [(JStr ''Read'', ''allow'', 1, 0, 1, 0),
                     (JStr ''mcp__filesystem-with-morph__directory_tree'', ''safe_intercept'',
                      2, 0, 1, 0)]\<rparr>
   \<and> (\<exists>r. snd (process_tool_call env_no_morph
     \<lparr>total_operations = 1, morph_operations = 0, native_operations = 1,
        fallback_operations = 0, log_lines = [(JStr ''Read'', ''allow'', 1, 0, 1, 0)]\<rparr>
     (JStr ''mcp__filesystem-with-morph__directory_tree'') (JObj [(''path'', JStr ''/proj'')]))
     = Inr r)"
  by (simp add: interceptor_eval env_no_morph_def)

theorem counters_follow_returned_calls_witness:
  "counted_once new_interceptor
     (fst (process_tool_call env_plain new_interceptor (JStr ''Read'')
            (JObj [(''file_path'', JStr ''/proj/a.py'')])))
   \<and> counters_sum new_interceptor = total_operations new_interceptor
   \<and> total_operations (fst (process_tool_calls new_interceptor
         [(env_plain, JStr ''Read'', JObj [(''file_path'', JStr ''/proj/a.py'')]),
          (env_no_morph, JStr ''mcp__filesystem-with-morph__directory_tree'',
           JObj [(''path'', JStr ''/proj'')])])) = 2
   \<and> counters_sum (fst (process_tool_calls new_interceptor
         [(env_plain, JStr ''Read'', JObj [(''file_path'', JStr ''/proj/a.py'')]),
          (env_no_morph, JStr ''mcp__filesystem-with-morph__directory_tree'',
           JObj [(''path'', JStr ''/proj'')])])) = 2"
proof -
  let ?calls = "[(env_plain, JStr ''Read'', JObj [(''file_path'', JStr ''/proj/a.py'')]),
          (env_no_morph, JStr ''mcp__filesystem-with-morph__directory_tree'',
           JObj [(''path'', JStr ''/proj'')])]"
  let ?p = "process_tool_call env_plain new_interceptor (JStr ''Read'')
            (JObj [(''file_path'', JStr ''/proj/a.py'')])"
  obtain r where r: "snd (process_tool_call env_no_morph
     \<lparr>total_operations = 1, morph_operations = 0, native_operations = 1,
        fallback_operations = 0, log_lines = [(JStr ''Read'', ''allow'', 1, 0, 1, 0)]\<rparr>
     (JStr ''mcp__filesystem-with-morph__directory_tree'') (JObj [(''path'', JStr ''/proj'')]))
     = Inr r"
    using example_tree_blocked by blast
  have outs: "\<forall>out \<in> set (snd (process_tool_calls new_interceptor ?calls)). \<exists>r. out = Inr r"
    using r by (auto simp: example_read_allowed split: prod.splits)
  have init: "counters_sum new_interceptor = total_operations new_interceptor"
    by (simp add: counters_sum_def new_interceptor_def)
  have one: "?p = (fst ?p, Inr (JObj [(''action'', JStr ''allow'')]))"
    by (simp add: example_read_allowed)
  have all: "process_tool_calls new_interceptor ?calls
      = (fst (process_tool_calls new_interceptor ?calls),
         snd (process_tool_calls new_interceptor ?calls))"
    by simp
  show ?thesis
    using counters_follow_returned_calls
      [of env_plain new_interceptor "JStr ''Read''" "JObj [(''file_path'', JStr ''/proj/a.py'')]"
          "fst ?p" "JObj [(''action'', JStr ''allow'')]" ?calls
          "fst (process_tool_calls new_interceptor ?calls)"
          "snd (process_tool_calls new_interceptor ?calls)"]
      one all outs init
    by (simp add: new_interceptor_def)
qed

text \<open>
  C6 as stated fails: a \<^verbatim>\<open>MultiEdit\<close> call whose \<^verbatim>\<open>edits\<close> entry is the number 5 raises
  \<^verbatim>\<open>TypeError\<close> in \<^verbatim>\<open>len\<close> after \<open>total_operations\<close> was incremented, and no other counter
  moves.
\<close>

theorem counters_after_raising_call_counterexample:
  "snd (process_tool_call env_plain new_interceptor (JStr ''MultiEdit'')
          (JObj [(''edits'', JNum 5)])) = Inl TypeError
   \<and> total_operations (fst (process_tool_call env_plain new_interceptor (JStr ''MultiEdit'')
          (JObj [(''edits'', JNum 5)]))) = 1
   \<and> counters_sum (fst (process_tool_call env_plain new_interceptor (JStr ''MultiEdit'')
          (JObj [(''edits'', JNum 5)]))) = 0
   \<and> \<not> counted_once new_interceptor
         (fst (process_tool_call env_plain new_interceptor (JStr ''MultiEdit'')
          (JObj [(''edits'', JNum 5)])))"
  by (simp add: interceptor_eval env_plain_def counters_sum_def counted_once_def)






section \<open>Properties of the process entry point\<close>





text \<open>
  C10. \<^verbatim>\<open>main\<close> hands every tool call to \<open>process_tool_call\<close> on a new instance
  (\<open>main_try\<close>), whose \<open>total_operations\<close> is 0; the call counts the operation once before
  anything else, so auto-activation compares 1 with the threshold of 5 and the
  operations-count branch is never the one that fires.
\<close>

theorem entry_point_below_operations_threshold:
  "total_operations new_interceptor = 0
   \<and> process_tool_call env new_interceptor tool_name tool_input
       = route_tool_call env (count_operation new_interceptor) (parse_flags env)
           tool_name tool_input
   \<and> total_operations (count_operation new_interceptor) = 1
   \<and> \<not> filesystem_operations_threshold \<le> total_operations (count_operation new_interceptor)
   \<and> should_auto_activate env (count_operation new_interceptor) tool_name tool_input flags
       \<noteq> Inr (Some OperationsThreshold)"
proof -
  have t: "total_operations (count_operation new_interceptor) = 1"
    by (simp add: count_operation_def new_interceptor_def)
  have "should_auto_activate env (count_operation new_interceptor) tool_name tool_input flags
       \<noteq> Inr (Some OperationsThreshold)"
  proof
    assume a: "should_auto_activate env (count_operation new_interceptor) tool_name tool_input flags
       = Inr (Some OperationsThreshold)"
    then show False
      unfolding should_auto_activate_def t filesystem_operations_threshold_def
      by (auto simp: then_do_eq_Inr split: if_splits)
  qed
  then show ?thesis
    using t by (simp add: process_tool_call_def new_interceptor_def filesystem_operations_threshold_def)
qed

theorem entry_point_below_operations_threshold_witness:
  "should_auto_activate env_plain (count_operation new_interceptor) (JStr ''Read'')
      (JObj [(''file_path'', JStr ''/proj/a.py'')]) (parse_flags env_plain) = Inr None
   \<and> should_auto_activate env_backend (count_operation new_interceptor) (JStr ''MultiEdit'')
      four_edits (parse_flags env_backend) = Inr (Some BatchEdit)
   \<and> total_operations (count_operation new_interceptor) = 1"
  using entry_point_below_operations_threshold
      [of env_plain "JStr ''Read''" "JObj [(''file_path'', JStr ''/proj/a.py'')]" "parse_flags env_plain"]
  by (simp add: interceptor_eval env_plain_def env_backend_def four_edits_def)

section \<open>Properties of hook path validation\<close>

lemma script_path_of_nonempty:
  "parts \<noteq> [] \<Longrightarrow>
   script_path_of parts =
     Inr (if 2 \<le> length parts \<and> hd parts \<in> {''python3'', ''python'', ''node''}
          then parts ! 1 else hd parts)"
  by (cases parts) (auto simp: script_path_of_def)

lemma split_from_no_space:
  "\<forall>c \<in> set s. \<not> is_space c \<Longrightarrow>
   split_from token s = (if token @ s = [] then [] else [token @ s])"
  by (induction s arbitrary: token) auto

lemma split_sep_no_slash:
  "\<forall>c \<in> set s. c \<noteq> CHR ''/'' \<Longrightarrow> split_sep seg s = [seg @ s]"
  by (induction s arbitrary: seg) auto

lemma path_str_plain:
  assumes "s \<noteq> []" and "s \<noteq> ''.''" and "\<forall>c \<in> set s. c \<noteq> CHR ''/''"
  shows "path_str s = s"
proof -
  have "take 1 s \<noteq> ''/''" using assms(1,3) by (cases s) auto
  then have "splitroot s = ([], s)" by (simp add: splitroot_def)
  then show ?thesis
    using assms by (simp add: path_str_def split_sep_no_slash)
qed

lemma long_name_facts:
  "long_name \<noteq> []" "long_name \<noteq> ''.''" "\<forall>c \<in> set long_name. c \<noteq> CHR ''/''"
  "\<forall>c \<in> set long_name. \<not> is_space c" "length long_name = 300"
proof -
  show len: "length long_name = 300" by (simp add: long_name_def)
  from len show "long_name \<noteq> []" by auto
  show "long_name \<noteq> ''.''"
  proof
    assume "long_name = ''.''"
    then have "length long_name = length ''.''" by (rule arg_cong)
    with len show False by simp
  qed
  show "\<forall>c \<in> set long_name. c \<noteq> CHR ''/''" by (simp add: long_name_def)
  show "\<forall>c \<in> set long_name. \<not> is_space c" by (simp add: long_name_def is_space_def)
qed

lemma py_split_long_name: "py_split long_name = [long_name]"
  using split_from_no_space[OF long_name_facts(4), of "[]"] long_name_facts(1)
  by (simp add: py_split_def)

lemma probe_long_name: "name_limit_probe (path_str long_name) = Inl OSError"
  using long_name_facts
  by (simp add: path_str_plain name_limit_probe_def split_sep_no_slash)

lemma py_split_no_break_space: "py_split [CHR 0xA0] = []"
  by (simp add: py_split_def is_space_def)

text \<open>
  C9, as amended. A hook entry whose command is a single space passes the emptiness
  check, splits into no token, and \<open>validate_hooks_paths\<close> raises \<^verbatim>\<open>IndexError\<close> whatever
  the file system holds. For a hook entry whose command has at least one token, the
  check of that entry returns whenever probing the script path does not raise: a
  missing path and a path that is no regular file are each reported as one error, an
  existing file gives none. When the probe raises, the exception leaves the check.
\<close>

theorem validate_hooks_paths_outcomes:
  "truthy (JStr '' '') \<and> py_split '' '' = []
   \<and> validate_hooks_paths probe blank_command_settings = Inl IndexError
   \<and> (map_of d ''command'' = Some (JStr s) \<and> py_split s \<noteq> [] \<longrightarrow>
        (\<exists>token.
           script_path_of (py_split s) = Inr token
         \<and> check_hook probe' hook_type i (JObj d)
             = (case probe' (path_str token) of
                  Inl e \<Rightarrow> Inl e
                | Inr None \<Rightarrow> Inr [ScriptNotFound (path_str token)]
                | Inr (Some RegularFile) \<Rightarrow> Inr []
                | Inr (Some OtherEntry) \<Rightarrow> Inr [NotAFile (path_str token)])))"
proof -
  have blank: "py_split '' '' = []"
    by (simp add: py_split_def is_space_def)
  have raises: "validate_hooks_paths probe blank_command_settings = Inl IndexError"
    by (simp add: validate_hooks_paths_def blank_command_settings_def get_hooks_config_def
        get_setting_def check_hook_def blank script_path_of_def then_do_def)
  have returns: "\<exists>token.
           script_path_of (py_split s) = Inr token
         \<and> check_hook probe' hook_type i (JObj d)
             = (case probe' (path_str token) of
                  Inl e \<Rightarrow> Inl e
                | Inr None \<Rightarrow> Inr [ScriptNotFound (path_str token)]
                | Inr (Some RegularFile) \<Rightarrow> Inr []
                | Inr (Some OtherEntry) \<Rightarrow> Inr [NotAFile (path_str token)])"
    if c: "map_of d ''command'' = Some (JStr s)" and t: "py_split s \<noteq> []"
  proof -
    from t have ne: "s \<noteq> []" by (auto simp: py_split_def)
    obtain token where tk: "script_path_of (py_split s) = Inr token"
      using script_path_of_nonempty[OF t] by blast
    have "check_hook probe' hook_type i (JObj d) = check_script probe' token"
      using c ne tk by (simp add: check_hook_def then_do_def)
    then show ?thesis
      using tk by (simp add: check_script_def Let_def)
  qed
  show ?thesis using blank raises returns by simp
qed

theorem validate_hooks_paths_outcomes_witness:
  "map_of [(''matcher'', JStr ''^Edit$''), (''command'', JStr ''python3 ./hooks//missing.py'')]
      ''command'' = Some (JStr ''python3 ./hooks//missing.py'')
   \<and> py_split ''python3 ./hooks//missing.py'' = [''python3'', ''./hooks//missing.py'']
   \<and> path_str ''./hooks//missing.py'' = ''hooks/missing.py''
   \<and> check_hook hooks_dir_probe ''preToolUse'' 0
        (JObj [(''matcher'', JStr ''^Edit$''), (''command'', JStr ''python3 ./hooks//missing.py'')])
       = Inr [ScriptNotFound ''hooks/missing.py'']
   \<and> validate_hooks_paths hooks_dir_probe blank_command_settings = Inl IndexError"
proof -
  have sp: "py_split ''python3 ./hooks//missing.py'' = [''python3'', ''./hooks//missing.py'']"
    by (simp add: py_split_def is_space_def)
  have ps: "path_str ''./hooks//missing.py'' = ''hooks/missing.py''"
    by (simp add: path_str_def splitroot_def)
  show ?thesis
    using validate_hooks_paths_outcomes
      [of hooks_dir_probe
          "[(''matcher'', JStr ''^Edit$''), (''command'', JStr ''python3 ./hooks//missing.py'')]"
          "''python3 ./hooks//missing.py''"
          hooks_dir_probe "''preToolUse''" 0]
    by (simp add: sp ps script_path_of_def hooks_dir_probe_def)
qed

text \<open>
  C9 as stated fails in its second half: a command that is one token of 300 letters has
  a token, yet \<^verbatim>\<open>Path.exists\<close> raises the \<^verbatim>\<open>OSError\<close> of \<^verbatim>\<open>os.stat\<close> (\<^verbatim>\<open>ENAMETOOLONG\<close>), and the
  exception leaves \<open>validate_hooks_paths\<close>: the check is not total.
\<close>

theorem validate_hooks_paths_probe_error_counterexample:
  "py_split long_name = [long_name]
   \<and> check_hook name_limit_probe ''preToolUse'' 0
        (JObj [(''matcher'', JStr ''^Read$''), (''command'', JStr long_name)]) = Inl OSError
   \<and> validate_hooks_paths name_limit_probe long_command_settings = Inl OSError"
proof -
  have t: "truthy (JStr long_name)" using long_name_facts(1) by simp
  have sp: "script_path_of [long_name] = Inr long_name"
    by (simp add: script_path_of_def)
  have c: "check_hook name_limit_probe ''preToolUse'' 0
        (JObj [(''matcher'', JStr ''^Read$''), (''command'', JStr long_name)]) = Inl OSError"
    using t by (simp add: check_hook_def py_split_long_name sp then_do_def check_script_def
        probe_long_name)
  have "validate_hooks_paths name_limit_probe long_command_settings = Inl OSError"
    by (simp add: validate_hooks_paths_def long_command_settings_def get_hooks_config_def
        get_setting_def c then_do_def)
  with c py_split_long_name show ?thesis by simp
qed

section \<open>Properties of backup restore\<close>

lemma restore_backup_missing:
  "map_of (backup_dir store) backup_name = None \<Longrightarrow>
   restore_backup parses timestamp store backup_name = (store, Inr False)"
  by (simp add: restore_backup_def)

lemma restore_backup_not_json:
  "map_of (backup_dir store) backup_name = Some backup \<Longrightarrow>
   utf8_ok (map of_char (file_bytes backup)) \<Longrightarrow> \<not> parses (file_bytes backup) \<Longrightarrow>
   restore_backup parses timestamp store backup_name = (store, Inr False)"
  by (simp add: restore_backup_def json_load_def restore_handler_def)

lemma restore_backup_undecodable:
  "map_of (backup_dir store) backup_name = Some backup \<Longrightarrow>
   \<not> utf8_ok (map of_char (file_bytes backup)) \<Longrightarrow>
   restore_backup parses timestamp store backup_name = (store, Inl UnicodeDecodeError)"
  by (simp add: restore_backup_def json_load_def restore_handler_def is_OSError_def)

lemma restore_backup_changes_only_after_parse:
  "fst (restore_backup parses timestamp store backup_name) \<noteq> store \<Longrightarrow>
   \<exists>backup. map_of (backup_dir store) backup_name = Some backup \<and> parses (file_bytes backup)"
  by (auto simp: restore_backup_def json_load_def split: option.splits if_splits)

lemma restore_backup_good_example:
  "restore_backup (\<lambda>s. s = ''{}'' \<or> s = ''{ }'') ''20240201_090000'' example_store
     ''settings_20240101_120000.json''
   = (\<lparr>settings_file = Some \<lparr>file_bytes = ''{}'', file_mtime = 10\<rparr>,
        backup_dir = backup_dir example_store
          @ [(''settings_20240201_090000.json'', \<lparr>file_bytes = ''{ }'', file_mtime = 30\<rparr>)]\<rparr>,
      Inr True)"
  by (simp add: restore_backup_def json_load_def create_settings_backup_def
      cleanup_old_backups_def glob_match_def sort_reverse_def sorts_before_def example_store_def
      Let_def continuation_def)

text \<open>
  C3 on a backup that is not valid UTF-8: the file holds the single byte \<^verbatim>\<open>0xFF\<close>, so it
  is no JSON, and \<open>restore_backup\<close> raises \<^verbatim>\<open>UnicodeDecodeError\<close> instead of returning
  false. (The live settings file is left as it was.)
\<close>

theorem restore_backup_raises_on_invalid_utf8:
  "map_of (backup_dir example_store) ''settings_20240102_120000.json''
     = Some \<lparr>file_bytes = [CHR 0xFF], file_mtime = 20\<rparr>
   \<and> restore_backup parses timestamp example_store ''settings_20240102_120000.json''
     = (example_store, Inl UnicodeDecodeError)
   \<and> restore_backup parses timestamp example_store ''settings_20240102_120000.json''
     \<noteq> (example_store, Inr False)"
proof -
  have m: "map_of (backup_dir example_store) ''settings_20240102_120000.json''
     = Some \<lparr>file_bytes = [CHR 0xFF], file_mtime = 20\<rparr>"
    by (simp add: example_store_def)
  have "\<not> utf8_ok (map of_char (file_bytes \<lparr>file_bytes = [CHR 0xFF], file_mtime = 20\<rparr>))"
    by simp
  from restore_backup_undecodable[OF m this] m show ?thesis by simp
qed

section \<open>Properties of the heap-level deep merge\<close>

lemma max_list_ge: "n \<in> set ns \<Longrightarrow> n \<le> max_list ns"
  by (induction ns) auto

lemma depth_item_le: "(k, j) \<in> set jkvs \<Longrightarrow> depth j < depth (JObj jkvs)"
  using max_list_ge[of "depth j" "map (\<lambda>kj. depth (snd kj)) jkvs"] by force

lemma depth_elem_le: "j \<in> set js \<Longrightarrow> depth j < depth (JArr js)"
  using max_list_ge[of "depth j" "map depth js"] by force

lemma repr_in_mono: "repr_in A h v j \<Longrightarrow> A \<subseteq> B \<Longrightarrow> repr_in B h v j"
proof (induction j arbitrary: v)
  case (JArr js)
  then show ?case
    by (auto split: pyval.splits pyobj.splits elim!: list.rel_mono_strong)
next
  case (JObj jkvs)
  from JObj.prems show ?case
    apply (auto split: pyval.splits pyobj.splits)
    apply (erule list.rel_mono_strong)
    using JObj.IH JObj.prems(2)
    apply (metis prod.collapse snds.intros)
    done
qed simp_all

lemma repr_in_frame:
  "repr_in A h v j \<Longrightarrow> (\<And>a. a \<in> A \<Longrightarrow> a < length h \<Longrightarrow> a < length h' \<and> h' ! a = h ! a) \<Longrightarrow>
   repr_in A h' v j"
proof (induction j arbitrary: v)
  case (JArr js)
  from JArr.prems show ?case
    apply (auto split: pyval.splits pyobj.splits)
    apply (erule list.rel_mono_strong)
    using JArr.IH JArr.prems(2)
    apply blast
    done
next
  case (JObj jkvs)
  from JObj.prems show ?case
    apply (auto split: pyval.splits pyobj.splits)
    apply (erule list.rel_mono_strong)
    using JObj.IH JObj.prems(2)
    apply (metis prod.collapse snds.intros)
    done
qed simp_all

lemma repr_in_bounded: "repr_in A h v j \<Longrightarrow> repr_in (A \<inter> {..<length h}) h v j"
proof (induction j arbitrary: v)
  case (JArr js)
  from JArr.prems show ?case
    apply (auto split: pyval.splits pyobj.splits)
    apply (erule list.rel_mono_strong)
    using JArr.IH
    apply blast
    done
next
  case (JObj jkvs)
  from JObj.prems show ?case
    apply (auto split: pyval.splits pyobj.splits)
    apply (erule list.rel_mono_strong)
    using JObj.IH
    apply (metis prod.collapse snds.intros)
    done
qed simp_all

lemma extends_refl [simp]: "extends h h"
  by (simp add: extends_def)

lemma extends_append [simp]: "extends h (h @ e)"
  by (simp add: extends_def)

lemma extends_nth: "extends h h' \<Longrightarrow> a < length h \<Longrightarrow> a < length h' \<and> h' ! a = h ! a"
proof -
  assume e: "extends h h'" and a: "a < length h"
  have "take (length h) h' ! a = h' ! a" using a by simp
  moreover have "take (length h) h' = h" using e by (simp add: extends_def)
  ultimately have "h' ! a = h ! a" by simp
  with a e show ?thesis by (simp add: extends_def)
qed

lemma extends_length: "extends h h' \<Longrightarrow> length h \<le> length h'"
  by (simp add: extends_def)

lemma extends_trans: "extends h h1 \<Longrightarrow> extends h1 h2 \<Longrightarrow> extends h h2"
proof -
  assume a: "extends h h1" and b: "extends h1 h2"
  have "take (length h) h2 = take (length h) (take (length h1) h2)"
    using a by (simp add: extends_def min_def)
  also have "\<dots> = take (length h) h1" using b by (simp add: extends_def)
  also have "\<dots> = h" using a by (simp add: extends_def)
  finally show ?thesis using a b by (simp add: extends_def)
qed

lemma repr_in_extends: "repr_in A h v j \<Longrightarrow> extends h h' \<Longrightarrow> repr_in A h' v j"
  by (erule repr_in_frame) (simp add: extends_nth)

lemma repr_items_mono: "repr_items A h kvs jkvs \<Longrightarrow> A \<subseteq> B \<Longrightarrow> repr_items B h kvs jkvs"
  unfolding repr_items_def
  by (erule list.rel_mono_strong) (auto intro: repr_in_mono)

lemma repr_items_frame:
  "repr_items A h kvs jkvs \<Longrightarrow>
   (\<And>a. a \<in> A \<Longrightarrow> a < length h \<Longrightarrow> a < length h' \<and> h' ! a = h ! a) \<Longrightarrow>
   repr_items A h' kvs jkvs"
  unfolding repr_items_def
  by (erule list.rel_mono_strong) (auto intro: repr_in_frame)

lemma repr_items_extends: "repr_items A h kvs jkvs \<Longrightarrow> extends h h' \<Longrightarrow> repr_items A h' kvs jkvs"
  by (erule repr_items_frame) (simp add: extends_nth)

lemma repr_in_JObj:
  "repr_in A h v (JObj jkvs) =
   (\<exists>a kvs. v = VRef a \<and> a \<in> A \<and> a < length h \<and> h ! a = ODict kvs \<and> repr_items A h kvs jkvs)"
  by (auto simp: repr_items_def split: pyval.splits pyobj.splits)

lemma repr_in_JArr:
  "repr_in A h v (JArr js) =
   (\<exists>a vs. v = VRef a \<and> a \<in> A \<and> a < length h \<and> h ! a = OList vs
      \<and> list_all2 (repr_in A h) vs js)"
  by (auto split: pyval.splits pyobj.splits)

lemma repr_in_scalar:
  "\<not> is_dict j \<Longrightarrow> \<not> is_list j \<Longrightarrow> repr_in A h v j \<Longrightarrow> repr_in B h' v j \<and> (\<forall>a. v \<noteq> VRef a)"
  by (cases j) (auto simp: is_dict_def is_list_def)

lemma deepcopy_items_aux:
  assumes IH: "\<And>k j A h v. (k, j) \<in> set jkvs0 \<Longrightarrow> repr_in A h v j \<Longrightarrow> depth j \<le> fuel \<Longrightarrow>
      \<exists>h' v'. deepcopy_h fuel h v = Some (h', v') \<and> extends h h'
        \<and> repr_in {length h..<length h'} h' v' j"
  shows "set jkvs \<subseteq> set jkvs0 \<Longrightarrow> repr_items A h kvs jkvs \<Longrightarrow>
     (\<forall>kj \<in> set jkvs. depth (snd kj) \<le> fuel) \<Longrightarrow>
     \<exists>h' kvs'. deepcopy_items fuel h kvs = Some (h', kvs') \<and> extends h h'
        \<and> repr_items {length h..<length h'} h' kvs' jkvs"
proof (induction jkvs arbitrary: kvs h)
  case Nil
  then show ?case by (simp add: repr_items_def)
next
  case (Cons kj jkvs)
  obtain k j where kj: "kj = (k, j)" by (cases kj)
  from Cons.prems(2) obtain v rest where kvs: "kvs = (k, v) # rest"
    and v: "repr_in A h v j" and rest: "repr_items A h rest jkvs"
    by (auto simp: repr_items_def kj list_all2_Cons2)
  from Cons.prems kj have "(k, j) \<in> set jkvs0" "depth j \<le> fuel" by auto
  from IH[OF this(1) v this(2)] obtain h1 v' where
    c1: "deepcopy_h fuel h v = Some (h1, v')" and e1: "extends h h1"
    and r1: "repr_in {length h..<length h1} h1 v' j" by blast
  have "repr_items A h1 rest jkvs" using rest e1 by (rule repr_items_extends)
  moreover have "set jkvs \<subseteq> set jkvs0" "\<forall>kj \<in> set jkvs. depth (snd kj) \<le> fuel"
    using Cons.prems by auto
  ultimately have "\<exists>h2 kvs'. deepcopy_items fuel h1 rest = Some (h2, kvs') \<and> extends h1 h2
        \<and> repr_items {length h1..<length h2} h2 kvs' jkvs"
    by (intro Cons.IH)
  then obtain h2 kvs' where
    c2: "deepcopy_items fuel h1 rest = Some (h2, kvs')" and e2: "extends h1 h2"
    and r2: "repr_items {length h1..<length h2} h2 kvs' jkvs" by blast
  have len: "length h \<le> length h1" "length h1 \<le> length h2"
    using e1 e2 by (simp_all add: extends_length)
  have "repr_in {length h..<length h2} h2 v' j"
    using repr_in_mono[OF repr_in_extends[OF r1 e2]] len by auto
  moreover have "repr_items {length h..<length h2} h2 kvs' jkvs"
    using repr_items_mono[OF r2] len by auto
  ultimately have "repr_items {length h..<length h2} h2 ((k, v') # kvs') (kj # jkvs)"
    by (simp add: repr_items_def kj)
  then show ?case
    using c1 c2 extends_trans[OF e1 e2] by (simp add: kvs)
qed

lemma deepcopy_list_aux:
  assumes IH: "\<And>j A h v. j \<in> set js0 \<Longrightarrow> repr_in A h v j \<Longrightarrow> depth j \<le> fuel \<Longrightarrow>
      \<exists>h' v'. deepcopy_h fuel h v = Some (h', v') \<and> extends h h'
        \<and> repr_in {length h..<length h'} h' v' j"
  shows "set js \<subseteq> set js0 \<Longrightarrow> list_all2 (repr_in A h) vs js \<Longrightarrow>
     (\<forall>j \<in> set js. depth j \<le> fuel) \<Longrightarrow>
     \<exists>h' vs'. deepcopy_list fuel h vs = Some (h', vs') \<and> extends h h'
        \<and> list_all2 (repr_in {length h..<length h'} h') vs' js"
proof (induction js arbitrary: vs h)
  case Nil
  then show ?case by simp
next
  case (Cons j js)
  from Cons.prems(2) obtain v rest where vs: "vs = v # rest"
    and v: "repr_in A h v j" and rest: "list_all2 (repr_in A h) rest js"
    by (auto simp: list_all2_Cons2)
  from Cons.prems have "j \<in> set js0" "depth j \<le> fuel" by auto
  from IH[OF this(1) v this(2)] obtain h1 v' where
    c1: "deepcopy_h fuel h v = Some (h1, v')" and e1: "extends h h1"
    and r1: "repr_in {length h..<length h1} h1 v' j" by blast
  have "list_all2 (repr_in A h1) rest js"
    using rest by (rule list.rel_mono_strong) (auto intro: repr_in_extends[OF _ e1])
  moreover have "set js \<subseteq> set js0" "\<forall>j \<in> set js. depth j \<le> fuel"
    using Cons.prems by auto
  ultimately have "\<exists>h2 vs'. deepcopy_list fuel h1 rest = Some (h2, vs') \<and> extends h1 h2
        \<and> list_all2 (repr_in {length h1..<length h2} h2) vs' js"
    by (intro Cons.IH)
  then obtain h2 vs' where
    c2: "deepcopy_list fuel h1 rest = Some (h2, vs')" and e2: "extends h1 h2"
    and r2: "list_all2 (repr_in {length h1..<length h2} h2) vs' js" by blast
  have len: "length h \<le> length h1" "length h1 \<le> length h2"
    using e1 e2 by (simp_all add: extends_length)
  have "repr_in {length h..<length h2} h2 v' j"
    using repr_in_mono[OF repr_in_extends[OF r1 e2]] len by auto
  moreover have "list_all2 (repr_in {length h..<length h2} h2) vs' js"
    using r2 by (rule list.rel_mono_strong) (use len in \<open>auto intro: repr_in_mono\<close>)
  ultimately show ?case
    using c1 c2 extends_trans[OF e1 e2] by (simp add: vs)
qed

lemma deepcopy_h_correct:
  "repr_in A h v j \<Longrightarrow> depth j \<le> fuel \<Longrightarrow>
   \<exists>h' v'. deepcopy_h fuel h v = Some (h', v') \<and> extends h h'
     \<and> repr_in {length h..<length h'} h' v' j"
proof (induction j arbitrary: A h v fuel)
  case (JArr js)
  from JArr.prems(1)[unfolded repr_in_JArr] obtain a vs where v: "v = VRef a"
    and a: "a < length h" and ha: "h ! a = OList vs" and vs: "list_all2 (repr_in A h) vs js"
    by blast
  from JArr.prems(2) obtain n where fuel: "fuel = Suc n" and n: "max_list (map depth js) \<le> n"
    by (cases fuel) auto
  have dn: "\<forall>j \<in> set js. depth j \<le> n"
    using n max_list_ge[of _ "map depth js"] by fastforce
  have "\<exists>h' vs'. deepcopy_list n h vs = Some (h', vs') \<and> extends h h'
        \<and> list_all2 (repr_in {length h..<length h'} h') vs' js"
    by (rule deepcopy_list_aux[where ?js0.0 = js, OF _ _ vs dn]) (auto intro: JArr.IH)
  then obtain h' vs' where c: "deepcopy_list n h vs = Some (h', vs')" and e: "extends h h'"
    and r: "list_all2 (repr_in {length h..<length h'} h') vs' js" by blast
  let ?h = "h' @ [OList vs']"
  have "list_all2 (repr_in {length h..<length ?h} ?h) vs' js"
    using r by (rule list.rel_mono_strong)
      (auto intro!: repr_in_mono[OF repr_in_extends[OF _ extends_append]])
  then have "repr_in {length h..<length ?h} ?h (VRef (length h')) (JArr js)"
    unfolding repr_in_JArr using extends_length[OF e] by simp
  moreover have "extends h ?h" using e extends_append by (rule extends_trans)
  ultimately show ?case using c a ha by (simp add: v fuel)
next
  case (JObj jkvs)
  from JObj.prems(1)[unfolded repr_in_JObj] obtain a kvs where v: "v = VRef a"
    and a: "a < length h" and ha: "h ! a = ODict kvs" and kvs: "repr_items A h kvs jkvs"
    by blast
  from JObj.prems(2) obtain n where fuel: "fuel = Suc n"
    and n: "max_list (map (\<lambda>kj. depth (snd kj)) jkvs) \<le> n"
    by (cases fuel) auto
  have dn: "\<forall>kj \<in> set jkvs. depth (snd kj) \<le> n"
    using n max_list_ge[of _ "map (\<lambda>kj. depth (snd kj)) jkvs"] by fastforce
  have "\<exists>h' kvs'. deepcopy_items n h kvs = Some (h', kvs') \<and> extends h h'
        \<and> repr_items {length h..<length h'} h' kvs' jkvs"
  proof (rule deepcopy_items_aux[where jkvs0 = jkvs, OF _ _ kvs dn])
    fix k j A h v
    assume "(k, j) \<in> set jkvs" "repr_in A h v j" "depth j \<le> n"
    then show "\<exists>h' v'. deepcopy_h n h v = Some (h', v') \<and> extends h h'
        \<and> repr_in {length h..<length h'} h' v' j"
      using JObj.IH[of "(k, j)" j A h v n] by simp
  qed simp
  then obtain h' kvs' where c: "deepcopy_items n h kvs = Some (h', kvs')" and e: "extends h h'"
    and r: "repr_items {length h..<length h'} h' kvs' jkvs" by blast
  let ?h = "h' @ [ODict kvs']"
  have "repr_items {length h..<length ?h} ?h kvs' jkvs"
    using repr_items_mono[OF repr_items_extends[OF r extends_append]] by auto
  then have "repr_in {length h..<length ?h} ?h (VRef (length h')) (JObj jkvs)"
    unfolding repr_in_JObj using extends_length[OF e] by simp
  moreover have "extends h ?h" using e extends_append by (rule extends_trans)
  ultimately show ?case using c a ha by (simp add: v fuel)
qed auto

lemma deepcopy_h_dict:
  assumes "repr_in A h v (JObj jkvs)" and "depth (JObj jkvs) \<le> fuel"
  shows "\<exists>h1 kvs'. deepcopy_h fuel h v = Some (h1 @ [ODict kvs'], VRef (length h1))
     \<and> extends h h1 \<and> repr_items {length h..<length h1} h1 kvs' jkvs"
proof -
  from assms(1)[unfolded repr_in_JObj] obtain a kvs where v: "v = VRef a"
    and a: "a < length h" and ha: "h ! a = ODict kvs" and kvs: "repr_items A h kvs jkvs"
    by blast
  from assms(2) obtain n where fuel: "fuel = Suc n"
    and n: "max_list (map (\<lambda>kj. depth (snd kj)) jkvs) \<le> n"
    by (cases fuel) auto
  have dn: "\<forall>kj \<in> set jkvs. depth (snd kj) \<le> n"
    using n max_list_ge[of _ "map (\<lambda>kj. depth (snd kj)) jkvs"] by fastforce
  have "\<exists>h' kvs'. deepcopy_items n h kvs = Some (h', kvs') \<and> extends h h'
        \<and> repr_items {length h..<length h'} h' kvs' jkvs"
    by (rule deepcopy_items_aux[where jkvs0 = jkvs, OF _ _ kvs dn])
      (auto intro: deepcopy_h_correct)
  then show ?thesis using a ha by (auto simp: v fuel)
qed

lemma items_depth_Cons [simp]:
  "items_depth (kj # jkvs) = max (depth (snd kj)) (items_depth jkvs)"
  by (simp add: items_depth_def)

lemma items_depth_Nil [simp]: "items_depth [] = 0"
  by (simp add: items_depth_def)

lemma depth_JObj: "depth (JObj jkvs) = Suc (items_depth jkvs)"
  by (simp add: items_depth_def)

lemma items_depth_dict_set:
  "items_depth (dict_set d k v) \<le> max (items_depth d) (depth v)"
  by (induction d) auto

lemma items_depth_map_of: "map_of d k = Some x \<Longrightarrow> depth x \<le> items_depth d"
  by (induction d) (auto split: if_splits)

lemma merge_step_state:
  "(case map_of result key of
      None \<Rightarrow> dict_set result key (deepcopy v)
    | Some (JObj b) \<Rightarrow>
        (case v of
           JObj ov \<Rightarrow> dict_set result key (JObj (deep_merge b ov))
         | _ \<Rightarrow> dict_set result key (deepcopy v))
    | Some _ \<Rightarrow> dict_set result key (deepcopy v))
   = dict_set result key (merge_value (map_of result key) v)"
  by (auto simp: deepcopy_id split: option.splits json.splits)

lemma merge_value_other:
  "\<not> (\<exists>b ov. x = Some (JObj b) \<and> v = JObj ov) \<Longrightarrow> merge_value x v = v"
  by (cases "(x, v)" rule: merge_value.cases) auto

lemma depth_merge_value:
  assumes "\<And>b ov. map_of result key = Some (JObj b) \<Longrightarrow> v = JObj ov \<Longrightarrow>
      items_depth (deep_merge b ov) \<le> max (items_depth b) (items_depth ov)"
  shows "depth (merge_value (map_of result key) v) \<le> max (items_depth result) (depth v)"
proof (cases "\<exists>b ov. map_of result key = Some (JObj b) \<and> v = JObj ov")
  case True
  then obtain b ov where b: "map_of result key = Some (JObj b)" and ov: "v = JObj ov" by blast
  from items_depth_map_of[OF b] have "Suc (items_depth b) \<le> items_depth result"
    by (simp add: items_depth_def)
  with assms[OF b ov] show ?thesis
    by (simp add: b ov items_depth_def del: deep_merge.simps)
next
  case False
  then have "merge_value (map_of result key) v = v"
    by (rule merge_value_other)
  then show ?thesis by simp
qed

lemma items_depth_merge:
  "items_depth (deep_merge base overlay) \<le> max (items_depth base) (items_depth overlay)"
  "items_depth (merge_items result items) \<le> max (items_depth result) (items_depth items)"
proof (induction base overlay and result items rule: deep_merge_merge_items.induct)
  case (1 base overlay)
  then show ?case by (simp add: deepcopy_items_id)
next
  case (2 result)
  show ?case by simp
next
  case (3 result key v rest)
  let ?mv = "merge_value (map_of result key) v"
  have mv: "depth ?mv \<le> max (items_depth result) (depth v)"
    by (rule depth_merge_value) (use "3.IH"(1) in blast)
  have "items_depth (merge_items (dict_set result key ?mv) rest)
      \<le> max (items_depth (dict_set result key ?mv)) (items_depth rest)"
    using "3.IH"(2) unfolding merge_step_state .
  also have "\<dots> \<le> max (max (items_depth result) (depth ?mv)) (items_depth rest)"
    using items_depth_dict_set[of result key ?mv] by simp
  also have "\<dots> \<le> max (items_depth result) (items_depth ((key, v) # rest))"
    using mv unfolding items_depth_Cons snd_conv by linarith
  finally show ?case unfolding merge_items_step .
qed

lemma repr_items_bounded: "repr_items A h kvs jkvs \<Longrightarrow> repr_items (A \<inter> {..<length h}) h kvs jkvs"
  unfolding repr_items_def
  by (erule list.rel_mono_strong) (auto intro: repr_in_bounded)

lemma repr_items_map_of:
  "repr_items S h res jres \<Longrightarrow>
   (case map_of res key of
      None \<Rightarrow> map_of jres key = None
    | Some x \<Rightarrow> (\<exists>jx. map_of jres key = Some jx \<and> repr_in S h x jx))"
  unfolding repr_items_def
  by (induction res jres rule: list_all2_induct) (auto split: option.splits)

lemma repr_in_is_dict: "repr_in S h x jx \<Longrightarrow> is_dict_in h x = is_dict jx"
  by (cases jx) (auto simp: is_dict_in_def is_dict_def split: pyval.splits pyobj.splits)

lemma repr_items_dict_set:
  "repr_items S h res jres \<Longrightarrow> repr_in S h m jm \<Longrightarrow>
   repr_items S h (dict_set res key m) (dict_set jres key jm)"
  unfolding repr_items_def
  by (induction res jres rule: list_all2_induct) auto

lemma repr_items_Cons:
  "repr_items B h items ((key, jv) # jrest) =
   (\<exists>v rest. items = (key, v) # rest \<and> repr_in B h v jv \<and> repr_items B h rest jrest)"
  by (auto simp: repr_items_def list_all2_Cons2)

lemma store_step:
  assumes r: "n0 \<le> r" "r < length h"
    and e: "extends h h1"
    and hr: "h ! r = ODict res"
    and res: "repr_items ({n0..<length h} - {r}) h res jres"
    and m: "repr_in {length h..<length h1} h1 m jm"
    and rest: "repr_items B h rest jrest"
    and B: "B \<subseteq> {..<n0}"
  shows "store_item h1 r key m ! r = ODict (dict_set res key m)"
    and "length (store_item h1 r key m) = length h1"
    and "repr_items ({n0..<length h1} - {r}) (store_item h1 r key m)
           (dict_set res key m) (dict_set jres key jm)"
    and "repr_items B (store_item h1 r key m) rest jrest"
    and "take n0 (store_item h1 r key m) = take n0 h"
proof -
  have len: "length h \<le> length h1" using e by (rule extends_length)
  have h1r: "h1 ! r = ODict res" using extends_nth[OF e r(2)] hr by simp
  have st: "store_item h1 r key m = h1[r := ODict (dict_set res key m)]"
    by (simp add: store_item_def h1r)
  have agree: "a < length (store_item h1 r key m) \<and> store_item h1 r key m ! a = h ! a"
    if "a < length h" "a \<noteq> r" for a
    using that extends_nth[OF e that(1)] by (simp add: st)
  have agree1: "a < length (store_item h1 r key m) \<and> store_item h1 r key m ! a = h1 ! a"
    if "a < length h1" "a \<noteq> r" for a
    using that by (simp add: st)
  show "store_item h1 r key m ! r = ODict (dict_set res key m)"
    using r len by (simp add: st)
  show "length (store_item h1 r key m) = length h1" by (simp add: st)
  have old: "repr_items ({n0..<length h1} - {r}) (store_item h1 r key m) res jres"
  proof (rule repr_items_mono[OF repr_items_frame[OF res]])
    show "{n0..<length h} - {r} \<subseteq> {n0..<length h1} - {r}" using len by auto
  qed (use agree in auto)
  have new: "repr_in ({n0..<length h1} - {r}) (store_item h1 r key m) m jm"
  proof (rule repr_in_mono[OF repr_in_frame[OF m]])
    show "{length h..<length h1} \<subseteq> {n0..<length h1} - {r}" using r by auto
  qed (use agree1 r in auto)
  show "repr_items ({n0..<length h1} - {r}) (store_item h1 r key m)
           (dict_set res key m) (dict_set jres key jm)"
    using old new by (rule repr_items_dict_set)
  show "repr_items B (store_item h1 r key m) rest jrest"
    by (rule repr_items_frame[OF rest]) (use agree B r in auto)
  have "take n0 (store_item h1 r key m) = take n0 h1" using r by (simp add: st)
  also have "\<dots> = take n0 (take (length h) h1)" using r by (simp add: min_def)
  also have "\<dots> = take n0 h" using e by (simp add: extends_def)
  finally show "take n0 (store_item h1 r key m) = take n0 h" .
qed

declare deep_merge_h.simps [simp del]

lemma deep_merge_h_refines_aux:
  "repr_in A h b (JObj jb) \<Longrightarrow> repr_in B h ov (JObj jo) \<Longrightarrow>
   max (depth (JObj jb)) (depth (JObj jo)) < fuel \<Longrightarrow>
   \<exists>h' r. deep_merge_h fuel h b ov = Some (h', VRef r) \<and> extends h h'
     \<and> repr_in {length h..<length h'} h' (VRef r) (JObj (deep_merge jb jo))"
  "n0 \<le> r \<Longrightarrow> r < length h \<Longrightarrow> h ! r = ODict res \<Longrightarrow>
   repr_items ({n0..<length h} - {r}) h res jres \<Longrightarrow> repr_items B h items jitems \<Longrightarrow>
   B \<subseteq> {..<n0} \<Longrightarrow> items_depth jres < fuel \<Longrightarrow> items_depth jitems < fuel \<Longrightarrow>
   \<exists>h' res'. merge_loop fuel h r items = Some h' \<and> length h \<le> length h'
     \<and> take n0 h' = take n0 h \<and> h' ! r = ODict res'
     \<and> repr_items ({n0..<length h'} - {r}) h' res' (merge_items jres jitems)"
proof (induction jb jo and jres jitems
    arbitrary: A B h b ov fuel and n0 r h res B items fuel
    rule: deep_merge_merge_items.induct)
  case (1 base overlay)
  from "1.prems"(3) obtain n where fuel: "fuel = Suc n"
    and dn: "depth (JObj base) \<le> n" "items_depth base < n" "items_depth overlay < n"
    by (cases fuel) (auto simp: items_depth_def)
  from "1.prems"(2)[unfolded repr_in_JObj] obtain oa items where ov: "ov = VRef oa"
    and oa: "oa < length h" and hoa: "h ! oa = ODict items"
    and items: "repr_items B h items overlay" by blast
  have dicts: "is_dict_in h b" "is_dict_in h ov"
    using repr_in_is_dict[OF "1.prems"(1)] repr_in_is_dict[OF "1.prems"(2)]
    by (simp_all add: is_dict_def)
  from deepcopy_h_dict[OF "1.prems"(1) dn(1)] obtain h1 kvs' where
    c: "deepcopy_h n h b = Some (h1 @ [ODict kvs'], VRef (length h1))"
    and e1: "extends h h1"
    and kvs': "repr_items {length h..<length h1} h1 kvs' base" by blast
  let ?H = "h1 @ [ODict kvs']"
  have eH: "extends h ?H" using e1 extends_append by (rule extends_trans)
  have len1: "length h \<le> length h1" using e1 by (rule extends_length)
  have Hoa: "?H ! oa = ODict items" using extends_nth[OF eH oa] hoa by simp
  have res0: "repr_items ({length h..<length ?H} - {length h1}) ?H kvs' base"
  proof (rule repr_items_mono[OF repr_items_extends[OF kvs' extends_append]])
    show "{length h..<length h1} \<subseteq> {length h..<length ?H} - {length h1}" by auto
  qed
  have items0: "repr_items (B \<inter> {..<length h}) ?H items overlay"
    using repr_items_extends[OF repr_items_bounded[OF items] eH] .
  have "\<exists>h' res'. merge_loop n ?H (length h1) items = Some h' \<and> length ?H \<le> length h'
     \<and> take (length h) h' = take (length h) ?H \<and> h' ! length h1 = ODict res'
     \<and> repr_items ({length h..<length h'} - {length h1}) h' res'
          (merge_items (map (map_prod id deepcopy) base) overlay)"
  proof (rule "1.IH")
    show "length h \<le> length h1" by (rule len1)
    show "length h1 < length ?H" by simp
    show "?H ! length h1 = ODict kvs'" by simp
    show "repr_items ({length h..<length ?H} - {length h1}) ?H kvs'
            (map (map_prod id deepcopy) base)"
      using res0 by (simp add: deepcopy_items_id)
    show "repr_items (B \<inter> {..<length h}) ?H items overlay" by (rule items0)
    show "B \<inter> {..<length h} \<subseteq> {..<length h}" by simp
    show "items_depth (map (map_prod id deepcopy) base) < n"
      using dn by (simp add: deepcopy_items_id)
    show "items_depth overlay < n" using dn by simp
  qed
  then obtain h' res' where
    l: "merge_loop n ?H (length h1) items = Some h'" and lenH: "length ?H \<le> length h'"
    and tk: "take (length h) h' = take (length h) ?H" and hr: "h' ! length h1 = ODict res'"
    and rr: "repr_items ({length h..<length h'} - {length h1}) h' res' (deep_merge base overlay)"
    by auto
  have "take (length h) ?H = h" using eH by (simp add: extends_def)
  with tk lenH len1 have e': "extends h h'" by (simp add: extends_def)
  have "repr_items {length h..<length h'} h' res' (deep_merge base overlay)"
    using repr_items_mono[OF rr] by auto
  with hr lenH len1
  have "repr_in {length h..<length h'} h' (VRef (length h1)) (JObj (deep_merge base overlay))"
    unfolding repr_in_JObj by simp
  moreover have "deep_merge_h fuel h b ov = Some (h', VRef (length h1))"
    using dicts unfolding ov by (subst deep_merge_h.simps) (simp add: fuel c Hoa l)
  ultimately show ?case using e' by blast
next
  case (2 result)
  then show ?case by (auto simp: repr_items_def)
next
  case (3 result key jv jrest)
  let ?jm = "merge_value (map_of result key) jv"
  from "3.prems"(5)[unfolded repr_items_Cons] obtain v rest where
    items: "items = (key, v) # rest" and v: "repr_in B h v jv"
    and rest: "repr_items B h rest jrest" by blast
  have djv: "depth jv < fuel" "items_depth jrest < fuel"
    using "3.prems"(8) by simp_all
  have look: "case map_of res key of
      None \<Rightarrow> map_of result key = None
    | Some x \<Rightarrow> (\<exists>jx. map_of result key = Some jx \<and> repr_in ({n0..<length h} - {r}) h x jx)"
    by (rule repr_items_map_of[OF "3.prems"(4)])
  have "\<exists>h1 m. (if map_of res key \<noteq> None \<and> is_dict_in h (the (map_of res key)) \<and> is_dict_in h v
                 then deep_merge_h fuel h (the (map_of res key)) v
                 else deepcopy_h fuel h v) = Some (h1, m)
          \<and> extends h h1 \<and> repr_in {length h..<length h1} h1 m ?jm"
  proof (cases "\<exists>jb' jo'. map_of result key = Some (JObj jb') \<and> jv = JObj jo'")
    case True
    then obtain jb' jo' where jb': "map_of result key = Some (JObj jb')" and jo': "jv = JObj jo'"
      by blast
    from look jb' obtain x where x: "map_of res key = Some x"
      and rx: "repr_in ({n0..<length h} - {r}) h x (JObj jb')"
      by (auto split: option.splits)
    have cond: "map_of res key \<noteq> None \<and> is_dict_in h (the (map_of res key)) \<and> is_dict_in h v"
      using repr_in_is_dict[OF rx] repr_in_is_dict[OF v] by (simp add: x jo' is_dict_def)
    have "depth (JObj jb') \<le> items_depth result" using items_depth_map_of[OF jb'] .
    then have f: "max (depth (JObj jb')) (depth (JObj jo')) < fuel"
      using "3.prems"(7) djv(1) by (simp add: jo')
    have "\<exists>h' rm. deep_merge_h fuel h x v = Some (h', VRef rm) \<and> extends h h'
       \<and> repr_in {length h..<length h'} h' (VRef rm) (JObj (deep_merge jb' jo'))"
      by (rule "3.IH"(1)[OF _ _ _ _ rx v[unfolded jo'] f]) (simp_all add: jb' jo')
    then show ?thesis using cond by (auto simp: x jb' jo' simp del: deep_merge.simps)
  next
    case False
    have ncond: "\<not> (map_of res key \<noteq> None \<and> is_dict_in h (the (map_of res key)) \<and> is_dict_in h v)"
    proof
      assume a: "map_of res key \<noteq> None \<and> is_dict_in h (the (map_of res key)) \<and> is_dict_in h v"
      then obtain x where x: "map_of res key = Some x" by auto
      with look obtain jx where jx: "map_of result key = Some jx"
        and rx: "repr_in ({n0..<length h} - {r}) h x jx" by auto
      from a x repr_in_is_dict[OF rx] repr_in_is_dict[OF v] have "is_dict jx" "is_dict jv"
        by simp_all
      with jx False show False by (cases jx; cases jv) (auto simp: is_dict_def)
    qed
    have jm: "?jm = jv" using False by (intro merge_value_other) blast
    from deepcopy_h_correct[OF v] djv(1) obtain h1 c where
      "deepcopy_h fuel h v = Some (h1, c)" "extends h h1"
      "repr_in {length h..<length h1} h1 c jv" by (metis less_imp_le)
    then show ?thesis using ncond by (auto simp: jm)
  qed
  then obtain h1 m where
    step: "(if map_of res key \<noteq> None \<and> is_dict_in h (the (map_of res key)) \<and> is_dict_in h v
                 then deep_merge_h fuel h (the (map_of res key)) v
                 else deepcopy_h fuel h v) = Some (h1, m)"
    and e1: "extends h h1" and m: "repr_in {length h..<length h1} h1 m ?jm" by blast
  let ?h2 = "store_item h1 r key m"
  note st = store_step[OF "3.prems"(1,2) e1 "3.prems"(3,4) m rest "3.prems"(6), of key]
  have len1: "length h \<le> length h1" using e1 by (rule extends_length)
  have dm: "depth ?jm \<le> max (items_depth result) (depth jv)"
    by (rule depth_merge_value) (rule items_depth_merge(1))
  have "\<exists>h' res'. merge_loop fuel ?h2 r rest = Some h' \<and> length ?h2 \<le> length h'
     \<and> take n0 h' = take n0 ?h2 \<and> h' ! r = ODict res'
     \<and> repr_items ({n0..<length h'} - {r}) h' res'
          (merge_items (dict_set result key ?jm) jrest)"
  proof (rule "3.IH"(2)[unfolded merge_step_state])
    show "n0 \<le> r" by (rule "3.prems"(1))
    show "r < length ?h2" using "3.prems"(2) len1 st(2) by simp
    show "?h2 ! r = ODict (dict_set res key m)" by (rule st(1))
    show "repr_items ({n0..<length ?h2} - {r}) ?h2 (dict_set res key m) (dict_set result key ?jm)"
      using st(3) by (simp add: st(2))
    show "repr_items B ?h2 rest jrest" by (rule st(4))
    show "B \<subseteq> {..<n0}" by (rule "3.prems"(6))
    show "items_depth (dict_set result key ?jm) < fuel"
      using items_depth_dict_set[of result key ?jm] dm "3.prems"(7) djv(1) by linarith
    show "items_depth jrest < fuel" by (rule djv(2))
  qed
  then obtain h' res' where
    l: "merge_loop fuel ?h2 r rest = Some h'" and len2: "length ?h2 \<le> length h'"
    and tk: "take n0 h' = take n0 ?h2" and hr: "h' ! r = ODict res'"
    and rr: "repr_items ({n0..<length h'} - {r}) h' res' (merge_items (dict_set result key ?jm) jrest)"
    by blast
  have "merge_loop fuel h r items = Some h'"
  proof (cases "map_of res key \<noteq> None \<and> is_dict_in h (the (map_of res key)) \<and> is_dict_in h v")
    case True
    with step have "deep_merge_h fuel h (the (map_of res key)) v = Some (h1, m)"
      by (auto split: if_splits)
    then show ?thesis using True l by (auto simp: items "3.prems"(3))
  next
    case False
    with step have "deepcopy_h fuel h v = Some (h1, m)" by (auto split: if_splits)
    then show ?thesis using False l by (auto simp: items "3.prems"(3))
  qed
  moreover have "length h \<le> length h'" using len1 len2 st(2) by simp
  moreover have "take n0 h' = take n0 h" using tk st(5) by simp
  ultimately show ?case using hr rr unfolding merge_items_step by blast
qed

text \<open>
  C1. On a heap where \<open>base\<close> and \<open>overlay\<close> are dictionaries (the JSON documents \<open>jb\<close> and
  \<open>jo\<close>), \<open>merge\<close> returns, given recursion depth for the nesting of its arguments:
  \<^item> every object of the old heap is unchanged, so \<open>base\<close> and \<open>overlay\<close> are unmutated;
  \<^item> the result is a new dictionary all of whose objects are new (addresses from
    \<open>length h\<close> on), so nothing in it is an alias of a part of \<open>base\<close> or \<open>overlay\<close>;
  \<^item> the result is the value-level merge, in which every key of \<open>overlay\<close> holds the
    recursive merge when \<open>base\<close> has the key and both values are mappings, and the
    overlay's value otherwise.
\<close>

theorem deep_merge_h_correct:
  assumes "repr_in A h base (JObj jb)"
    and "repr_in B h overlay (JObj jo)"
    and "max (depth (JObj jb)) (depth (JObj jo)) < fuel"
    and "distinct (map fst jo)"
  shows "\<exists>h' r. deep_merge_h fuel h base overlay = Some (h', VRef r)
       \<and> extends h h'
       \<and> repr_in A h' base (JObj jb) \<and> repr_in B h' overlay (JObj jo)
       \<and> length h \<le> r
       \<and> repr_in {length h..<length h'} h' (VRef r) (JObj (deep_merge jb jo))
       \<and> (\<forall>k b' o'. map_of jo k = Some (JObj o') \<and> map_of jb k = Some (JObj b')
             \<longrightarrow> map_of (deep_merge jb jo) k = Some (JObj (deep_merge b' o')))
       \<and> (\<forall>k v. map_of jo k = Some v \<and> \<not> (is_dict v \<and> (\<exists>b'. map_of jb k = Some (JObj b')))
             \<longrightarrow> map_of (deep_merge jb jo) k = Some v)"
proof -
  from deep_merge_h_refines_aux(1)[OF assms(1,2,3)] obtain h' r where
    m: "deep_merge_h fuel h base overlay = Some (h', VRef r)" and e: "extends h h'"
    and r: "repr_in {length h..<length h'} h' (VRef r) (JObj (deep_merge jb jo))" by blast
  have old: "repr_in A h' base (JObj jb)" "repr_in B h' overlay (JObj jo)"
    by (rule repr_in_extends[OF assms(1) e], rule repr_in_extends[OF assms(2) e])
  from r[unfolded repr_in_JObj] have fresh: "length h \<le> r" by auto
  have both: "map_of (deep_merge jb jo) k = Some (JObj (deep_merge b' o'))"
    if "map_of jo k = Some (JObj o')" "map_of jb k = Some (JObj b')" for k b' o'
    using map_of_deep_merge_key[OF assms(4) that(1), of jb] that(2)
    by (simp del: deep_merge.simps)
  have other: "map_of (deep_merge jb jo) k = Some v"
    if "map_of jo k = Some v" "\<not> (is_dict v \<and> (\<exists>b'. map_of jb k = Some (JObj b')))" for k v
  proof -
    have "merge_value (map_of jb k) v = v"
      using that(2) by (intro merge_value_other) (auto simp: is_dict_def)
    with map_of_deep_merge_key[OF assms(4) that(1), of jb] show ?thesis
      by (simp del: deep_merge.simps)
  qed
  show ?thesis using m e old fresh r both other by blast
qed

theorem deep_merge_h_correct_witness:
  "repr_in {0, 1} example_heap (VRef 1) (JObj example_base)
   \<and> repr_in {2, 3, 4} example_heap (VRef 4) (JObj example_overlay)
   \<and> max (depth (JObj example_base)) (depth (JObj example_overlay)) < 5
   \<and> distinct (map fst example_overlay)
   \<and> (\<exists>h' r. deep_merge_h 5 example_heap (VRef 1) (VRef 4) = Some (h', VRef r)
         \<and> extends example_heap h'
         \<and> 5 \<le> r
         \<and> repr_in {5..<length h'} h' (VRef r) (JObj (deep_merge example_base example_overlay)))"
proof -
  have a: "repr_in {0, 1} example_heap (VRef 1) (JObj example_base)"
    by (simp add: example_heap_def example_base_def)
  have b: "repr_in {2, 3, 4} example_heap (VRef 4) (JObj example_overlay)"
    by (simp add: example_heap_def example_overlay_def)
  have c: "max (depth (JObj example_base)) (depth (JObj example_overlay)) < 5"
    by (simp add: example_base_def example_overlay_def)
  have d: "distinct (map fst example_overlay)"
    by (simp add: example_overlay_def)
  have l: "length example_heap = 5" by (simp add: example_heap_def)
  from deep_merge_h_correct[OF a b c d] obtain h' r where
    "deep_merge_h 5 example_heap (VRef 1) (VRef 4) = Some (h', VRef r)"
    "extends example_heap h'" "length example_heap \<le> r"
    "repr_in {length example_heap..<length h'} h' (VRef r)
       (JObj (deep_merge example_base example_overlay))"
    by blast
  then show ?thesis using a b c d unfolding l by blast
qed

lemma deep_merge_h_example:
  "deep_merge_h 5 example_heap (VRef 1) (VRef 4) =
     Some (example_heap @
       [ODict [(''enabled'', VBool False), (''x'', VNum 1)],
        ODict [(''hooks'', VRef 7), (''theme'', VStr ''dark'')],
        ODict [(''enabled'', VBool True), (''x'', VNum 1), (''l'', VRef 8)],
        OList [VNum 1, VNum 2]],
       VRef 6)"
  by (simp add: deep_merge_h.simps example_heap_def is_dict_in_def store_item_def
      numeral_eq_Suc)

end
